(* ===== verification/TaskPrelude.thy ===== *)
theory TaskPrelude
  imports Main "HOL-Library.Word" "HOL-Library.Char_ord" "HOL-Library.List_Lexorder"
begin

text \<open>
  The shared vocabulary of the development: the pieces of the Rust language and standard
  library the sources use (byte strings and their searches, \<open>Result\<close> with the
  \<open>?\<close> operator, little-endian words), the insertion-ordered map behind
  \<open>Vars\<close>, \<open>Tasks\<close> and \<open>Includes\<close>, and the two interfaces every component builds
  on: \<open>ordered_map\<close> (what a lookup returns after an insert, and in which order the
  keys come) and \<open>prefix_code\<close> (an encoder whose output can be read back with
  nothing left ambiguous).

  A Rust \<open>String\<close> is its UTF-8 byte sequence, here a \<open>char list\<close> with one
  \<open>char\<close> per byte; comparison of strings is the bytewise lexicographic order, as in
  Rust. Where the code works on Unicode scalars (\<open>str::chars\<close>) the model decodes
  them with \<open>chars\<close>. \<open>usize\<close> and \<open>u64\<close> are 64 bits wide; paths are Unix paths.
\<close>

section \<open>Results\<close>

type_synonym ('e, 'a) result = "'e + 'a"

text \<open>The \<open>?\<close> operator: stop at the first error.\<close>

definition try_bind :: "('e, 'a) result \<Rightarrow> ('a \<Rightarrow> ('e, 'b) result) \<Rightarrow> ('e, 'b) result" where
  "try_bind r f = (case r of Inl e \<Rightarrow> Inl e | Inr x \<Rightarrow> f x)"

lemma try_bind_simps [simp]:
  "try_bind (Inl e) f = Inl e"
  "try_bind (Inr x) f = f x"
  by (simp_all add: try_bind_def)

lemma try_bind_eq_Inr [simp]:
  "try_bind r f = Inr y \<longleftrightarrow> (\<exists>x. r = Inr x \<and> f x = Inr y)"
  by (cases r) auto

lemma try_bind_eq_Inl:
  "try_bind r f = Inl e \<longleftrightarrow> r = Inl e \<or> (\<exists>x. r = Inr x \<and> f x = Inl e)"
  by (cases r) auto

text \<open>A fallible loop over a list, left to right, threading the state.\<close>

fun try_fold :: "('a \<Rightarrow> 's \<Rightarrow> ('e, 's) result) \<Rightarrow> 'a list \<Rightarrow> 's \<Rightarrow> ('e, 's) result" where
  "try_fold f [] s = Inr s"
| "try_fold f (x # xs) s = try_bind (f x s) (try_fold f xs)"

lemma try_fold_append:
  "try_fold f (xs @ ys) s = try_bind (try_fold f xs s) (try_fold f ys)"
proof (induction xs arbitrary: s)
  case (Cons x xs)
  then show ?case by (cases "f x s") simp_all
qed simp

lemma try_fold_invariant:
  assumes "try_fold f xs s = Inr s'" and "P s"
    and "\<And>x t t'. x \<in> set xs \<Longrightarrow> P t \<Longrightarrow> f x t = Inr t' \<Longrightarrow> P t'"
  shows "P s'"
  using assms
proof (induction xs arbitrary: s)
  case (Cons x xs)
  from Cons.prems(1) obtain t where t: "f x s = Inr t" "try_fold f xs t = Inr s'"
    by auto
  have "P t" using Cons.prems(2) Cons.prems(3) [of x s t] t(1) by simp
  show ?case
    by (rule Cons.IH [OF t(2) \<open>P t\<close>]) (use Cons.prems(3) in auto)
qed simp

section \<open>Comparisons\<close>

text \<open>\<open>std::cmp::Ordering\<close> and \<open>Ord::cmp\<close>.\<close>

datatype ordering = Less | Equal | Greater

definition cmp :: "'a::linorder \<Rightarrow> 'a \<Rightarrow> ordering" where
  "cmp a b = (if a < b then Less else if a = b then Equal else Greater)"

lemma cmp_simps [simp]:
  "cmp a b = Less \<longleftrightarrow> a < b" "cmp a b = Equal \<longleftrightarrow> a = b" "cmp a b = Greater \<longleftrightarrow> b < a"
  by (auto simp: cmp_def)

section \<open>Strings\<close>

type_synonym str = string

definition starts_with :: "'a list \<Rightarrow> 'a list \<Rightarrow> bool" where
  "starts_with s p = (take (length p) s = p)"

definition ends_with :: "'a list \<Rightarrow> 'a list \<Rightarrow> bool" where
  "ends_with s p = (length p \<le> length s \<and> drop (length s - length p) s = p)"

definition strip_prefix :: "'a list \<Rightarrow> 'a list \<Rightarrow> 'a list option" where
  "strip_prefix p s = (if starts_with s p then Some (drop (length p) s) else None)"

lemma starts_with_iff: "starts_with s p \<longleftrightarrow> (\<exists>t. s = p @ t)"
  unfolding starts_with_def by (metis append_eq_conv_conj append_take_drop_id)

lemma starts_with_append [simp]: "starts_with (p @ t) p"
  by (simp add: starts_with_def)

lemma ends_with_iff: "ends_with s p \<longleftrightarrow> (\<exists>t. s = t @ p)"
proof
  assume "ends_with s p"
  then show "\<exists>t. s = t @ p"
    unfolding ends_with_def by (metis append_take_drop_id)
next
  assume "\<exists>t. s = t @ p"
  then show "ends_with s p" by (auto simp: ends_with_def)
qed

lemma strip_prefix_eq_Some: "strip_prefix p s = Some t \<longleftrightarrow> s = p @ t"
  unfolding strip_prefix_def starts_with_def
  by (auto simp: append_eq_conv_conj) (metis append_take_drop_id)

lemma strip_prefix_eq_None: "strip_prefix p s = None \<longleftrightarrow> \<not> starts_with s p"
  by (simp add: strip_prefix_def)

text \<open>\<open>str::split\<close> with a one-byte separator: never empty.\<close>

fun split_on :: "'a \<Rightarrow> 'a list \<Rightarrow> 'a list list" where
  "split_on c [] = [[]]"
| "split_on c (x # xs) =
     (if x = c then [] # split_on c xs
      else (case split_on c xs of [] \<Rightarrow> [[x]] | y # ys \<Rightarrow> (x # y) # ys))"

fun str_join :: "'a list \<Rightarrow> 'a list list \<Rightarrow> 'a list" where
  "str_join sep [] = []"
| "str_join sep [x] = x"
| "str_join sep (x # y # xs) = x @ sep @ str_join sep (y # xs)"

lemma split_on_not_Nil [simp]: "split_on c s \<noteq> []"
  by (induction s) (auto split: list.splits)

lemma str_join_Cons: "xs \<noteq> [] \<Longrightarrow> str_join sep (x # xs) = x @ sep @ str_join sep xs"
  by (cases xs) simp_all

lemma str_join_split_on [simp]: "str_join [c] (split_on c s) = s"
proof (induction s)
  case (Cons x xs)
  obtain y ys where y: "split_on c xs = y # ys"
    by (metis list.exhaust split_on_not_Nil)
  then have "str_join [c] ((x # y) # ys) = x # str_join [c] (y # ys)"
    by (cases ys) simp_all
  with Cons y show ?case by (simp add: str_join_Cons)
qed simp

lemma split_on_no_sep: "x \<in> set (split_on c s) \<Longrightarrow> c \<notin> set x"
proof (induction s arbitrary: x)
  case (Cons a s)
  obtain y ys where y: "split_on c s = y # ys"
    by (metis list.exhaust split_on_not_Nil)
  with Cons show ?case by (auto split: if_splits)
qed simp

lemma split_on_single: "c \<notin> set s \<Longrightarrow> split_on c s = [s]"
  by (induction s) auto

lemma split_on_append: "c \<notin> set a \<Longrightarrow> split_on c (a @ c # b) = a # split_on c b"
  by (induction a) auto

lemma split_on_str_join:
  assumes "xs \<noteq> []" and "\<And>x. x \<in> set xs \<Longrightarrow> c \<notin> set x"
  shows "split_on c (str_join [c] xs) = xs"
  using assms
proof (induction xs)
  case (Cons x xs)
  show ?case
  proof (cases xs)
    case Nil
    with Cons show ?thesis by (simp add: split_on_single)
  next
    case (Cons y ys)
    have "split_on c (str_join [c] xs) = xs" using Cons.IH Cons.prems Cons by simp
    then show ?thesis using Cons.prems Cons by (simp add: split_on_append)
  qed
qed simp

text \<open>\<open>str::split_once\<close>, \<open>str::rsplit_once\<close> and \<open>str::rfind\<close>.\<close>

fun split_once :: "'a \<Rightarrow> 'a list \<Rightarrow> ('a list \<times> 'a list) option" where
  "split_once c [] = None"
| "split_once c (x # xs) =
     (if x = c then Some ([], xs)
      else map_option (\<lambda>(a, b). (x # a, b)) (split_once c xs))"

fun rfind :: "'a list \<Rightarrow> 'a list \<Rightarrow> nat option" where
  "rfind p [] = (if p = [] then Some 0 else None)"
| "rfind p (x # xs) =
     (case rfind p xs of
        Some i \<Rightarrow> Some (Suc i)
      | None \<Rightarrow> (if starts_with (x # xs) p then Some 0 else None))"

definition str_contains :: "'a list \<Rightarrow> 'a list \<Rightarrow> bool" where
  "str_contains s p = (rfind p s \<noteq> None)"

lemma split_once_Some:
  "split_once c s = Some (a, b) \<longleftrightarrow> s = a @ c # b \<and> c \<notin> set a"
proof (induction s arbitrary: a)
  case (Cons x s)
  show ?case
  proof (cases "x = c")
    case True
    then show ?thesis by (cases a) auto
  next
    case False
    then show ?thesis using Cons.IH by (cases a) auto
  qed
qed simp

lemma split_once_None: "split_once c s = None \<longleftrightarrow> c \<notin> set s"
  by (induction s) auto

lemma rfind_SomeD: "rfind p s = Some i \<Longrightarrow> \<exists>a b. s = a @ p @ b \<and> length a = i"
proof (induction s arbitrary: i)
  case (Cons x s)
  show ?case
  proof (cases "rfind p s")
    case None
    with Cons.prems have "starts_with (x # s) p" "i = 0" by (auto split: if_splits)
    then show ?thesis by (auto simp: starts_with_iff)
  next
    case (Some j)
    with Cons obtain a b where "s = a @ p @ b" "length a = j" by blast
    with Some Cons.prems have "x # s = (x # a) @ p @ b \<and> length (x # a) = i" by simp
    then show ?thesis by blast
  qed
qed (auto split: if_splits)

lemma rfind_None: "rfind p s = None \<longleftrightarrow> (\<nexists>a b. s = a @ p @ b)"
proof (induction s)
  case (Cons x s)
  show ?case
  proof (cases "rfind p s")
    case None
    with Cons have none: "\<nexists>a b. s = a @ p @ b" by simp
    have "(\<exists>a b. x # s = a @ p @ b) \<longleftrightarrow> starts_with (x # s) p"
      using none by (auto simp: starts_with_iff Cons_eq_append_conv)
    with None show ?thesis by simp
  next
    case (Some j)
    with Cons obtain a b where "s = a @ p @ b" by auto
    then have "x # s = (x # a) @ p @ b" by simp
    then have "\<exists>a b. x # s = a @ p @ b" by blast
    with Some show ?thesis by simp
  qed
qed auto

lemma rfind_last:
  "rfind p s = Some i \<Longrightarrow> s = a @ p @ b \<Longrightarrow> length a \<le> i"
proof (induction s arbitrary: i a)
  case (Cons x s)
  show ?case
  proof (cases a)
    case Nil
    then show ?thesis by simp
  next
    case (Cons y a')
    with Cons.prems have s: "s = a' @ p @ b" by simp
    then have "rfind p s \<noteq> None" by (auto simp: rfind_None)
    then obtain j where j: "rfind p s = Some j" by blast
    have "length a' \<le> j" using Cons.IH [OF j s] .
    with j Cons.prems(1) Cons show ?thesis by simp
  qed
qed (auto split: if_splits)

text \<open>
  The Unicode scalars of a UTF-8 string, as \<open>str::chars\<close> yields them: the leading byte
  gives the width, each continuation byte six more bits.
\<close>

fun utf8_decode :: "nat list \<Rightarrow> nat list" where
  "utf8_decode [] = []"
| "utf8_decode (b # bs) =
     (if b < 128 then b # utf8_decode bs
      else if b < 224 then
        (case bs of c # r \<Rightarrow> ((b mod 32) * 64 + c mod 64) # utf8_decode r | [] \<Rightarrow> [b])
      else if b < 240 then
        (case bs of c # d # r \<Rightarrow> ((b mod 16) * 4096 + (c mod 64) * 64 + d mod 64) # utf8_decode r
         | _ \<Rightarrow> [b])
      else
        (case bs of c # d # e # r \<Rightarrow>
            ((b mod 8) * 262144 + (c mod 64) * 4096 + (d mod 64) * 64 + e mod 64) # utf8_decode r
         | _ \<Rightarrow> [b]))"

definition chars :: "str \<Rightarrow> nat list" where
  "chars s = utf8_decode (map of_char s)"

lemma chars_Nil [simp]: "chars [] = []"
  by (simp add: chars_def)

lemma chars_Cons_ascii [simp]: "of_char c < (128::nat) \<Longrightarrow> chars (c # s) = of_char c # chars s"
  by (simp add: chars_def)

section \<open>Bytes and words\<close>

type_synonym byte = "8 word"
type_synonym u32 = "32 word"
type_synonym u64 = "64 word"

definition as_bytes :: "str \<Rightarrow> byte list" where
  "as_bytes s = map of_char s"

text \<open>\<open>to_le_bytes\<close> of a word with \<open>n\<close> bytes.\<close>

definition le_bytes :: "nat \<Rightarrow> 'a::len word \<Rightarrow> byte list" where
  "le_bytes n w = map (\<lambda>i. ucast (drop_bit (8 * i) w)) [0..<n]"

lemma length_as_bytes [simp]: "length (as_bytes s) = length s"
  by (simp add: as_bytes_def)

lemma length_le_bytes [simp]: "length (le_bytes n w) = n"
  by (simp add: le_bytes_def)

lemma of_char_byte_inj: "(of_char c :: byte) = of_char d \<longleftrightarrow> c = d"
proof
  assume eq: "(of_char c :: byte) = of_char d"
  have u: "unat (of_char a :: byte) = of_char a" for a
  proof -
    have "(of_char a :: byte) = of_nat (of_char a)" by (rule of_nat_of_char [symmetric])
    moreover have "(of_char a :: nat) < 256" by simp
    ultimately show ?thesis by (simp add: unat_of_nat)
  qed
  have "(of_char c :: nat) = of_char d" using u [of c] u [of d] eq by metis
  then show "c = d" by simp
qed simp

lemma as_bytes_inject [simp]: "as_bytes s = as_bytes t \<longleftrightarrow> s = t"
  unfolding as_bytes_def by (intro inj_map_eq_map injI) (simp add: of_char_byte_inj)

lemma le_bytes_bit:
  assumes "i < n" "j < 8"
  shows "bit (le_bytes n w ! i) j \<longleftrightarrow> bit w (8 * i + j)"
  using assms by (simp add: le_bytes_def bit_ucast_iff bit_drop_bit_eq)

lemma le_bytes_inj:
  fixes v w :: "'a::len word"
  assumes eq: "le_bytes n v = le_bytes n w" and n: "LENGTH('a) \<le> 8 * n"
  shows "v = w"
proof (rule bit_word_eqI)
  fix k assume "k < LENGTH('a)"
  with n have k: "k div 8 < n" "k mod 8 < 8" by auto
  have "bit (le_bytes n v ! (k div 8)) (k mod 8) = bit (le_bytes n w ! (k div 8)) (k mod 8)"
    using eq by simp
  with k show "bit v k = bit w k" by (simp add: le_bytes_bit)
qed

section \<open>Uniquely decodable encodings\<close>

text \<open>
  The interface of an encoder: reading its output back is unambiguous, whatever follows it, up
  to the part of a value the encoding leaves out on purpose (\<open>view\<close> is what it keeps).
  \<open>good\<close> is the set of values the law holds for (lengths that fit the width of their
  frame). The law is an equivalence so that, as a conditional rewrite rule collected in
  \<open>decode_iff\<close>, it takes a composite encoding apart field by field.
\<close>

named_theorems decode_iff

locale view_code =
  fixes enc :: "'a \<Rightarrow> 'b list" and good :: "'a \<Rightarrow> bool" and view :: "'a \<Rightarrow> 'c"
  assumes decodable:
    "good x \<Longrightarrow> good y \<Longrightarrow> (enc x @ s = enc y @ t) \<longleftrightarrow> (view x = view y \<and> s = t)"
begin

lemma injective: "good x \<Longrightarrow> good y \<Longrightarrow> (enc x = enc y) \<longleftrightarrow> (view x = view y)"
  using decodable [of x y "[]" "[]"] by simp

lemma no_proper_prefix: "good x \<Longrightarrow> good y \<Longrightarrow> enc y = enc x @ s \<Longrightarrow> s = []"
  using decodable [of x y s "[]"] by auto

lemma decodable_list:
  assumes "length xs = length ys" "list_all good xs" "list_all good ys"
  shows "(concat (map enc xs) @ s = concat (map enc ys) @ t) \<longleftrightarrow> (map view xs = map view ys \<and> s = t)"
  using assms
proof (induction xs ys rule: list_induct2)
  case (Cons x xs y ys)
  then show ?case by (auto simp: decodable)
qed simp

end

text \<open>An encoder that leaves nothing out.\<close>

locale prefix_code = view_code enc good "\<lambda>x. x"
  for enc :: "'a \<Rightarrow> 'b list" and good :: "'a \<Rightarrow> bool"

text \<open>The length frame in front of a byte string or a sequence: eight little-endian bytes.\<close>

definition enc_len :: "nat \<Rightarrow> byte list" where
  "enc_len n = le_bytes 8 (of_nat n :: u64)"

definition fits :: "nat \<Rightarrow> bool" where
  "fits n = (n < 2 ^ 64)"

definition enc_seq :: "('a \<Rightarrow> byte list) \<Rightarrow> 'a list \<Rightarrow> byte list" where
  "enc_seq e xs = enc_len (length xs) @ concat (map e xs)"

definition good_seq :: "('a \<Rightarrow> bool) \<Rightarrow> 'a list \<Rightarrow> bool" where
  "good_seq g xs = (fits (length xs) \<and> list_all g xs)"

lemma length_enc_len [simp]: "length (enc_len n) = 8"
  by (simp add: enc_len_def)

lemma le_bytes_append:
  fixes v w :: "'a::len word"
  assumes "LENGTH('a) \<le> 8 * n"
  shows "(le_bytes n v @ s = le_bytes n w @ t) \<longleftrightarrow> (v = w \<and> s = t)"
  using le_bytes_inj [OF _ assms] by auto

interpretation len_code: prefix_code enc_len fits
proof
  fix m n s t assume "fits m" "fits n"
  then have "(of_nat m = (of_nat n :: u64)) \<longleftrightarrow> m = n"
    by (simp add: fits_def word_of_nat_eq_iff take_bit_nat_eq_self)
  then show "(enc_len m @ s = enc_len n @ t) \<longleftrightarrow> (m = n \<and> s = t)"
    unfolding enc_len_def by (subst le_bytes_append) simp_all
qed

declare len_code.decodable [decode_iff] len_code.injective [decode_iff]

lemma enc_seq_decodable:
  assumes "view_code e g v" "good_seq g xs" "good_seq g ys"
  shows "(enc_seq e xs @ s = enc_seq e ys @ t) \<longleftrightarrow> (map v xs = map v ys \<and> s = t)"
proof -
  from assms(2,3) have f: "fits (length xs)" "fits (length ys)"
    and l: "list_all g xs" "list_all g ys" by (auto simp: good_seq_def)
  show ?thesis
    using view_code.decodable_list [OF assms(1), OF _ l]
    by (auto simp: enc_seq_def len_code.decodable [OF f] dest: map_eq_imp_length_eq)
qed

lemma view_code_seq: "view_code e g v \<Longrightarrow> view_code (enc_seq e) (good_seq g) (map v)"
  by (rule view_code.intro) (rule enc_seq_decodable)

lemma prefix_code_seq: "prefix_code e g \<Longrightarrow> prefix_code (enc_seq e) (good_seq g)"
  using view_code_seq [of e g "\<lambda>x. x"] by (simp add: prefix_code_def)

section \<open>Insertion-ordered maps\<close>

text \<open>
  \<open>indexmap::IndexMap\<close>, the container behind the ordered maps of the Taskfile syntax:
  an association list with distinct keys in which an insert of a present key keeps its
  place and replaces its value, and a removal (\<open>shift_remove\<close>) keeps the order of
  the rest.
\<close>

type_synonym ('k, 'v) index_map = "('k \<times> 'v) list"

fun im_insert :: "'k \<Rightarrow> 'v \<Rightarrow> ('k, 'v) index_map \<Rightarrow> ('k, 'v) index_map" where
  "im_insert k v [] = [(k, v)]"
| "im_insert k v ((k', v') # m) = (if k' = k then (k, v) # m else (k', v') # im_insert k v m)"

definition im_get :: "('k, 'v) index_map \<Rightarrow> 'k \<Rightarrow> 'v option" where
  "im_get m k = map_of m k"

definition im_keys :: "('k, 'v) index_map \<Rightarrow> 'k list" where
  "im_keys m = map fst m"

definition im_remove :: "'k \<Rightarrow> ('k, 'v) index_map \<Rightarrow> ('k, 'v) index_map" where
  "im_remove k m = filter (\<lambda>p. fst p \<noteq> k) m"

definition im_ok :: "('k, 'v) index_map \<Rightarrow> bool" where
  "im_ok m = distinct (map fst m)"

text \<open>
  What the clients of an ordered map rely on, and the lemmas about a loop of inserts that
  follow from it.
\<close>

locale ordered_map =
  fixes empty :: 'm
    and insert :: "'k \<Rightarrow> 'v \<Rightarrow> 'm \<Rightarrow> 'm"
    and get :: "'m \<Rightarrow> 'k \<Rightarrow> 'v option"
    and keys :: "'m \<Rightarrow> 'k list"
    and ok :: "'m \<Rightarrow> bool"
  assumes ok_empty: "ok empty"
    and ok_insert: "ok m \<Longrightarrow> ok (insert k v m)"
    and get_empty: "get empty k = None"
    and get_insert: "get (insert k v m) k' = (if k' = k then Some v else get m k')"
    and keys_insert: "keys (insert k v m) = (if k \<in> set (keys m) then keys m else keys m @ [k])"
    and get_None: "get m k = None \<longleftrightarrow> k \<notin> set (keys m)"
    and ok_distinct: "ok m \<Longrightarrow> distinct (keys m)"
begin

definition insert_all :: "('k \<times> 'v) list \<Rightarrow> 'm \<Rightarrow> 'm" where
  "insert_all ps m = fold (\<lambda>(k, v). insert k v) ps m"

lemma insert_all_simps [simp]:
  "insert_all [] m = m"
  "insert_all ((k, v) # ps) m = insert_all ps (insert k v m)"
  by (simp_all add: insert_all_def)

lemma ok_insert_all: "ok m \<Longrightarrow> ok (insert_all ps m)"
  by (induction ps arbitrary: m) (auto simp: ok_insert)

lemma get_insert_all:
  assumes "distinct (map fst ps)"
  shows "get (insert_all ps m) k = (case map_of ps k of Some v \<Rightarrow> Some v | None \<Rightarrow> get m k)"
  using assms
proof (induction ps arbitrary: m)
  case (Cons p ps)
  obtain a b where p: "p = (a, b)" by (cases p)
  with Cons.prems have "map_of ps a = None" by (simp add: map_of_eq_None_iff)
  with Cons p show ?case by (cases "k = a") (simp_all add: get_insert split: option.split)
qed simp

lemma keys_insert_all:
  assumes "distinct (map fst ps)"
  shows "keys (insert_all ps m) = keys m @ filter (\<lambda>k. k \<notin> set (keys m)) (map fst ps)"
  using assms
proof (induction ps arbitrary: m)
  case (Cons p ps)
  obtain a b where p: "p = (a, b)" by (cases p)
  have "filter (\<lambda>k. k \<noteq> a \<and> k \<notin> set (keys m)) (map fst ps) = filter (\<lambda>k. k \<notin> set (keys m)) (map fst ps)"
    using Cons.prems p by (intro filter_cong) auto
  with Cons p show ?case by (auto simp: keys_insert)
qed simp

lemma get_Some_key: "get m k = Some v \<Longrightarrow> k \<in> set (keys m)"
  using get_None [of m k] by auto

end

lemma im_keys_insert:
  "im_keys (im_insert k v m) = (if k \<in> set (im_keys m) then im_keys m else im_keys m @ [k])"
  unfolding im_keys_def by (induction k v m rule: im_insert.induct) simp_all

lemma im_get_insert: "im_get (im_insert k v m) k' = (if k' = k then Some v else im_get m k')"
  unfolding im_get_def by (induction m) auto

interpretation im: ordered_map "[]" im_insert im_get im_keys im_ok
proof
  show "im_ok (im_insert k v m)" if "im_ok m" for k :: 'a and v :: 'b and m
    using that im_keys_insert [of k v m] unfolding im_ok_def im_keys_def by auto
  show "im_get m k = None \<longleftrightarrow> k \<notin> set (im_keys m)" for m :: "('a, 'b) index_map" and k
    unfolding im_get_def im_keys_def by (auto simp: map_of_eq_None_iff)
qed (auto simp: im_ok_def im_get_def im_keys_def im_get_insert [unfolded im_get_def]
      im_keys_insert [unfolded im_keys_def])

lemma im_get_remove: "im_get (im_remove k m) k' = (if k' = k then None else im_get m k')"
  unfolding im_get_def im_remove_def by (induction m) auto

lemma im_keys_remove: "im_keys (im_remove k m) = filter (\<lambda>x. x \<noteq> k) (im_keys m)"
  unfolding im_keys_def im_remove_def by (induction m) auto

lemma im_insert_absent: "k \<notin> set (im_keys m) \<Longrightarrow> im_insert k v m = m @ [(k, v)]"
  unfolding im_keys_def by (induction m) auto

lemma set_im_insert: "set (im_insert k v m) \<subseteq> insert (k, v) (set m)"
  by (induction m) (auto split: if_splits)

lemma im_get_in_set: "im_get m k = Some v \<Longrightarrow> (k, v) \<in> set m"
  unfolding im_get_def by (rule map_of_SomeD)

lemma im_get_eq: "im_ok m \<Longrightarrow> (k, v) \<in> set m \<Longrightarrow> im_get m k = Some v"
  unfolding im_get_def im_ok_def by simp

end
