(* ===== verification/Paths.thy ===== *)
theory Paths
  imports TaskPrelude
begin

text \<open>
  Path joining (\<open>crates/taskcore/src/filepathext.rs\<close>): the port of Go's
  \<open>filepath.Clean\<close>, \<open>Join\<close> and \<open>Rel\<close> on slash-separated paths, the right-to-left
  search for an absolute directory, and the markers that count as absolute. The lemmas
  give the normal form \<open>clean\<close> computes, that \<open>rel\<close> and \<open>join\<close> are inverse to
  each other, and that the rightmost absolute directory wins.
\<close>

section \<open>Definitions\<close>

abbreviation slash :: char where
  "slash \<equiv> CHR ''/''"

text \<open>\<open>Path::is_absolute\<close> on Unix.\<close>

definition is_absolute :: "str \<Rightarrow> bool" where
  "is_absolute p = starts_with p ''/''"

text \<open>One turn of the loop of \<open>clean\<close>: what a path part does to the parts kept so far.\<close>

definition clean_push :: "bool \<Rightarrow> str list \<Rightarrow> str \<Rightarrow> str list" where
  "clean_push rooted out part =
     (if part = [] \<or> part = ''.'' then out
      else if part = ''..'' then
        (if out = [] then (if rooted then out else out @ [''..''])
         else if last out = ''..'' then out @ [''..'']
         else butlast out)
      else out @ [part])"

definition clean :: "str \<Rightarrow> str" where
  "clean path =
     (if path = [] then ''.''
      else
        let rooted = starts_with path ''/'';
            out = foldl (clean_push rooted) [] (split_on slash path);
            body = str_join ''/'' out
        in if rooted then ''/'' @ body
           else if body = [] then ''.''
           else body)"

definition join :: "str \<Rightarrow> str \<Rightarrow> str" where
  "join base component =
     (if component = [] then clean base
      else if base = [] then clean component
      else clean (base @ ''/'' @ component))"

text \<open>
  \<open>join_dirs\<close> scans the index down from the end; the model recurses on the reversed
  prefix, with the components already passed.
\<close>

fun join_dirs_scan :: "str list \<Rightarrow> str list \<Rightarrow> str" where
  "join_dirs_scan [] rest = []"
| "join_dirs_scan (d # before) rest =
     (if before = [] \<or> is_absolute d then foldl join [] (d # rest)
      else join_dirs_scan before (d # rest))"

definition join_dirs :: "str list \<Rightarrow> str" where
  "join_dirs dirs = join_dirs_scan (rev dirs) []"

definition join_path :: "str list \<Rightarrow> str" where
  "join_path elems =
     (let joined = str_join ''/'' (filter (\<lambda>e. e \<noteq> []) elems)
      in if joined = [] then [] else clean joined)"

definition known_abs_dirs :: "str list" where
  "known_abs_dirs = [''.ROOT_DIR'', ''.TASKFILE_DIR'', ''.USER_WORKING_DIR'']"

definition is_special_dir :: "str \<Rightarrow> bool" where
  "is_special_dir dir = list_ex (\<lambda>d. str_contains dir d) known_abs_dirs"

definition is_abs :: "str \<Rightarrow> bool" where
  "is_abs path = (if is_special_dir path then True else is_absolute path)"

definition smart_join :: "str \<Rightarrow> str \<Rightarrow> str" where
  "smart_join a b = (if is_abs b then b else join a b)"

definition join_glob :: "str \<Rightarrow> str \<Rightarrow> str" where
  "join_glob dir pattern =
     (let joined = smart_join dir pattern
      in if ends_with pattern ''/'' \<and> \<not> ends_with joined ''/'' then joined @ ''/'' else joined)"

definition split_clean :: "str \<Rightarrow> str list" where
  "split_clean p = filter (\<lambda>s. s \<noteq> [] \<and> s \<noteq> ''.'') (split_on slash p)"

text \<open>The loop of \<open>rel\<close> that counts the components two paths share.\<close>

fun common_len :: "'a list \<Rightarrow> 'a list \<Rightarrow> nat" where
  "common_len (b # bs) (t # ts) = (if b = t then Suc (common_len bs ts) else 0)"
| "common_len _ _ = 0"

definition rel :: "str \<Rightarrow> str \<Rightarrow> str option" where
  "rel base0 path =
     (let base = clean base0; target = clean path
      in if base = target then Some ''.''
         else if is_absolute base \<noteq> is_absolute target then None
         else
           let base_parts = split_clean base;
               target_parts = split_clean target;
               common = common_len base_parts target_parts
           in if ''..'' \<in> set (drop common base_parts) then None
              else
                let up = length base_parts - common;
                    out_parts = replicate up ''..'' @ drop common target_parts
                in if out_parts = [] then Some ''.''
                   else Some (str_join ''/'' out_parts))"

definition rel_str :: "str \<Rightarrow> str \<Rightarrow> str option" where
  "rel_str base path = rel base path"

definition try_abs_to_rel :: "str option \<Rightarrow> str \<Rightarrow> str" where
  "try_abs_to_rel current_dir ab =
     (case current_dir of
        None \<Rightarrow> ab
      | Some wd \<Rightarrow> (case rel wd ab of Some r \<Rightarrow> r | None \<Rightarrow> ab))"

definition go_ext :: "str \<Rightarrow> str" where
  "go_ext path =
     (let base = last (split_on slash path)
      in case rfind ''.'' base of Some idx \<Rightarrow> drop idx base | None \<Rightarrow> [])"

text \<open>
  \<open>Path::file_name\<close>: the last component, empty and \<open>.\<close> ones dropped, unless it
  is \<open>..\<close> or there is none.
\<close>

definition file_name :: "str \<Rightarrow> str option" where
  "file_name p =
     (let parts = split_clean p
      in if parts = [] \<or> last parts = ''..'' then None else Some (last parts))"

definition is_ext_only :: "str \<Rightarrow> bool" where
  "is_ext_only path =
     (case file_name path of
        Some b \<Rightarrow> b = go_ext path
      | None \<Rightarrow> go_ext path = [])"

section \<open>The normal form\<close>

definition plain :: "str \<Rightarrow> bool" where
  "plain s = (s \<noteq> [] \<and> s \<noteq> ''.'' \<and> s \<noteq> ''..'' \<and> slash \<notin> set s)"

text \<open>The parts \<open>clean\<close> keeps: leading \<open>..\<close> in a relative path, then names.\<close>

definition norm_parts :: "bool \<Rightarrow> str list \<Rightarrow> bool" where
  "norm_parts rooted ps =
     (\<exists>k names. ps = replicate k ''..'' @ names \<and> list_all plain names \<and> (rooted \<longrightarrow> k = 0))"

definition render :: "bool \<Rightarrow> str list \<Rightarrow> str" where
  "render rooted ps =
     (if rooted then ''/'' @ str_join ''/'' ps else if ps = [] then ''.'' else str_join ''/'' ps)"

definition path_parts :: "str \<Rightarrow> str list" where
  "path_parts p = foldl (clean_push (is_absolute p)) [] (split_on slash p)"

lemma plain_simps [simp]: "\<not> plain []" "\<not> plain ''.''" "\<not> plain ''..''"
  by (simp_all add: plain_def)

lemma norm_parts_Nil [simp]: "norm_parts r []"
  by (auto simp: norm_parts_def)

lemma norm_parts_snoc_plain: "norm_parts r ps \<Longrightarrow> plain s \<Longrightarrow> norm_parts r (ps @ [s])"
proof -
  assume "norm_parts r ps" and s: "plain s"
  then obtain k names
    where "ps = replicate k ''..'' @ names" "list_all plain names" "r \<longrightarrow> k = 0"
    unfolding norm_parts_def by blast
  then have "ps @ [s] = replicate k ''..'' @ (names @ [s])" "list_all plain (names @ [s])"
    using s by auto
  with \<open>r \<longrightarrow> k = 0\<close> show ?thesis unfolding norm_parts_def by blast
qed

lemma norm_parts_mem: "norm_parts r ps \<Longrightarrow> p \<in> set ps \<Longrightarrow> plain p \<or> p = ''..''"
  by (auto simp: norm_parts_def list_all_iff)

lemma norm_parts_no_slash: "norm_parts r ps \<Longrightarrow> p \<in> set ps \<Longrightarrow> slash \<notin> set p"
  using norm_parts_mem [of r ps p] by (auto simp: plain_def)

lemma norm_parts_nonempty: "norm_parts r ps \<Longrightarrow> p \<in> set ps \<Longrightarrow> p \<noteq> []"
  using norm_parts_mem [of r ps p] by (auto simp: plain_def)

lemma clean_push_norm:
  assumes "norm_parts r ps" "slash \<notin> set s"
  shows "norm_parts r (clean_push r ps s)"
proof -
  from assms(1) obtain k names
    where ps: "ps = replicate k ''..'' @ names" "list_all plain names" "r \<longrightarrow> k = 0"
    unfolding norm_parts_def by blast
  consider (skip) "s = [] \<or> s = ''.''" | (up) "s = ''..''" | (name) "plain s"
    using assms(2) by (auto simp: plain_def)
  then show ?thesis
  proof cases
    case skip
    with assms show ?thesis by (auto simp: clean_push_def)
  next
    case name
    then have "clean_push r ps s = ps @ [s]" by (auto simp: clean_push_def)
    with assms name show ?thesis by (simp add: norm_parts_snoc_plain)
  next
    case up
    show ?thesis
    proof (cases names rule: rev_cases)
      case Nil
      with ps up have "clean_push r ps s = replicate (if r then 0 else Suc k) ''..''"
        by (cases k) (auto simp: clean_push_def replicate_append_same)
      then show ?thesis unfolding norm_parts_def by (intro exI [of _ "if r then 0 else Suc k"]) auto
    next
      case (snoc ns n)
      with ps(2) have "n \<noteq> ''..''" by auto
      with snoc ps up have "clean_push r ps s = replicate k ''..'' @ ns"
        by (auto simp: clean_push_def butlast_append)
      with snoc ps show ?thesis unfolding norm_parts_def by auto
    qed
  qed
qed

lemma foldl_clean_push_norm:
  "norm_parts r ps \<Longrightarrow> (\<And>s. s \<in> set ss \<Longrightarrow> slash \<notin> set s) \<Longrightarrow>
   norm_parts r (foldl (clean_push r) ps ss)"
  by (induction ss arbitrary: ps) (auto simp: clean_push_norm)

lemma path_parts_norm [simp]: "norm_parts (is_absolute p) (path_parts p)"
  unfolding path_parts_def by (rule foldl_clean_push_norm) (auto dest: split_on_no_sep)

lemma str_join_eq_Nil: "str_join [c] ps = [] \<longleftrightarrow> ps = [] \<or> ps = [[]]"
  by (cases ps; cases "tl ps") auto

lemma norm_not_singleton_Nil: "norm_parts r ps \<Longrightarrow> ps \<noteq> [[]]"
  by (metis list.set_intros(1) norm_parts_nonempty)

lemma clean_render: "clean p = (if p = [] then ''.'' else render (is_absolute p) (path_parts p))"
  using norm_not_singleton_Nil [OF path_parts_norm [of p]]
  by (auto simp: clean_def render_def path_parts_def is_absolute_def Let_def str_join_eq_Nil)

text \<open>A normal list of parts is read back as it is.\<close>

lemma foldl_clean_push_names:
  "list_all plain names \<Longrightarrow> foldl (clean_push r) ps names = ps @ names"
proof (induction names arbitrary: ps)
  case (Cons n names)
  then have "clean_push r ps n = ps @ [n]" by (auto simp: clean_push_def)
  with Cons show ?case by simp
qed simp

lemma foldl_clean_push_ups:
  "foldl (clean_push False) (replicate j ''..'') (replicate k ''..'') = replicate (j + k) ''..''"
proof (induction k arbitrary: j)
  case (Suc k)
  have "clean_push False (replicate j ''..'') ''..'' = replicate (Suc j) ''..''"
    by (cases j) (auto simp: clean_push_def replicate_append_same)
  with Suc [of "Suc j"] show ?case by simp
qed simp

lemma foldl_clean_push_id: "norm_parts r ps \<Longrightarrow> foldl (clean_push r) [] ps = ps"
proof -
  assume "norm_parts r ps"
  then obtain k names
    where ps: "ps = replicate k ''..'' @ names" "list_all plain names" "r \<longrightarrow> k = 0"
    unfolding norm_parts_def by blast
  then show ?thesis
    using foldl_clean_push_ups [of 0 k] by (cases r) (auto simp: foldl_clean_push_names)
qed


lemma split_on_append_sep: "split_on c (a @ c # b) = split_on c a @ split_on c b"
proof (induction a)
  case (Cons x a)
  then show ?case by (auto split: list.splits)
qed simp

lemma split_on_render:
  assumes "norm_parts r ps"
  shows "split_on slash (render r ps)
         = (if r then [] # (if ps = [] then [[]] else ps) else if ps = [] then [''.''] else ps)"
proof -
  have "ps \<noteq> [] \<Longrightarrow> split_on slash (str_join [slash] ps) = ps"
    using assms by (intro split_on_str_join) (auto dest: norm_parts_no_slash)
  then show ?thesis by (auto simp: render_def)
qed

lemma is_absolute_render:
  assumes "norm_parts r ps"
  shows "is_absolute (render r ps) = r"
proof (cases "r \<or> ps = []")
  case True
  then show ?thesis by (auto simp: render_def is_absolute_def starts_with_def)
next
  case False
  then obtain q qs where q: "ps = q # qs" by (cases ps) auto
  have "q \<noteq> []" "slash \<notin> set q"
    using assms q by (auto dest: norm_parts_nonempty norm_parts_no_slash)
  then have "hd (str_join ''/'' ps) \<noteq> slash" "str_join ''/'' ps \<noteq> []"
    using q by (cases q; cases qs; auto)+
  with False show ?thesis by (cases "str_join ''/'' ps") (auto simp: render_def is_absolute_def starts_with_def)
qed

lemma render_not_Nil: "norm_parts r ps \<Longrightarrow> render r ps \<noteq> []"
  using norm_not_singleton_Nil [of r ps] by (auto simp: render_def str_join_eq_Nil)

lemma clean_push_skip [simp]: "clean_push r ps [] = ps" "clean_push r ps ''.'' = ps"
  by (simp_all add: clean_push_def)

lemma path_parts_render:
  assumes "norm_parts r ps"
  shows "path_parts (render r ps) = ps"
  unfolding path_parts_def is_absolute_render [OF assms] split_on_render [OF assms]
  using foldl_clean_push_id [OF assms] by auto

lemma clean_of_render: "norm_parts r ps \<Longrightarrow> clean (render r ps) = render r ps"
  by (simp add: clean_render render_not_Nil is_absolute_render path_parts_render)

lemma path_parts_empty [simp]: "path_parts [] = []"
  by (simp add: path_parts_def)

lemma is_absolute_Nil [simp]: "\<not> is_absolute []"
  by (simp add: is_absolute_def starts_with_def)

lemma clean_as_render: "clean p = render (is_absolute p) (path_parts p)"
  by (simp add: clean_render render_def)

lemma is_absolute_clean [simp]: "is_absolute (clean p) = is_absolute p"
  by (simp add: clean_as_render is_absolute_render)

lemma path_parts_clean [simp]: "path_parts (clean p) = path_parts p"
  by (simp add: clean_as_render path_parts_render)

lemma split_clean_clean [simp]: "split_clean (clean p) = path_parts p"
proof -
  let ?ps = "path_parts p"
  have "filter (\<lambda>s. s \<noteq> [] \<and> s \<noteq> ''.'') ?ps = ?ps"
    using norm_parts_mem [OF path_parts_norm [of p]] by (auto simp: filter_id_conv plain_def)
  then show ?thesis
    unfolding split_clean_def clean_as_render split_on_render [OF path_parts_norm] by auto
qed

lemma clean_eq_iff: "clean p = clean q \<longleftrightarrow> is_absolute p = is_absolute q \<and> path_parts p = path_parts q"
proof
  assume eq: "clean p = clean q"
  have "is_absolute (clean p) = is_absolute (clean q)" "path_parts (clean p) = path_parts (clean q)"
    by (simp_all only: eq)
  then show "is_absolute p = is_absolute q \<and> path_parts p = path_parts q" by simp
qed (simp add: clean_as_render)

text \<open>Joining a relative component continues the fold of the base.\<close>

lemma is_absolute_append: "base \<noteq> [] \<Longrightarrow> is_absolute (base @ x) = is_absolute base"
  by (cases base) (auto simp: is_absolute_def starts_with_def)

lemma path_parts_append:
  assumes "base \<noteq> []"
  shows "path_parts (base @ ''/'' @ c) = foldl (clean_push (is_absolute base)) (path_parts base) (split_on slash c)"
  using assms is_absolute_append [OF assms, of "''/'' @ c"] split_on_append_sep [of slash base c]
  by (simp add: path_parts_def)

lemma foldl_clean_push_pop:
  "norm_parts r (ps @ ns) \<Longrightarrow> list_all plain ns \<Longrightarrow>
   foldl (clean_push r) (ps @ ns) (replicate (length ns) ''..'') = ps"
proof (induction ns rule: rev_induct)
  case (snoc n ns)
  then have "clean_push r (ps @ ns @ [n]) ''..'' = ps @ ns"
    by (auto simp: clean_push_def butlast_append)
  moreover have "norm_parts r (ps @ ns)"
    using clean_push_norm [OF snoc.prems(1), of "''..''"] calculation by simp
  ultimately show ?case using snoc by simp
qed simp

lemma foldl_clean_push_extend:
  assumes "norm_parts r (ps @ qs)"
  shows "foldl (clean_push r) ps qs = ps @ qs"
proof -
  obtain k names where n: "ps @ qs = replicate k ''..'' @ names" "list_all plain names" "r \<longrightarrow> k = 0"
    using assms unfolding norm_parts_def by blast
  show ?thesis
  proof (cases "length ps \<le> k")
    case True
    then have ps: "ps = replicate (length ps) ''..''"
      and qs: "qs = replicate (k - length ps) ''..'' @ names"
      using n(1) by (auto simp: append_eq_append_conv_if)
    have "\<not> r \<or> k = 0" using n(3) by blast
    then show ?thesis
    proof
      assume "\<not> r"
      then have "foldl (clean_push r) (replicate (length ps) ''..'')
          (replicate (k - length ps) ''..'' @ names) = replicate k ''..'' @ names"
        using foldl_clean_push_ups [of "length ps" "k - length ps"] n(2) True
        by (simp add: foldl_clean_push_names)
      then show ?thesis using ps qs n(1) by metis
    next
      assume "k = 0"
      with qs n(2) show ?thesis by (simp add: foldl_clean_push_names)
    qed
  next
    case False
    then have "list_all plain qs"
      using n by (auto simp: append_eq_append_conv_if list_all_iff dest: in_set_dropD)
    then show ?thesis by (rule foldl_clean_push_names)
  qed
qed

lemma common_len_props:
  "common_len xs ys \<le> length xs" "common_len xs ys \<le> length ys"
  "take (common_len xs ys) xs = take (common_len xs ys) ys"
  by (induction xs ys rule: common_len.induct) auto


lemma join_render:
  assumes "c \<noteq> []" "\<not> is_absolute c"
  shows "join base c =
     render (is_absolute base) (foldl (clean_push (is_absolute base)) (path_parts base) (split_on slash c))"
proof (cases "base = []")
  case True
  with assms show ?thesis by (simp add: join_def clean_as_render path_parts_def)
next
  case False
  then show ?thesis
    using assms path_parts_append [OF False, of c] is_absolute_append [OF False, of "''/'' @ c"]
    by (simp add: join_def clean_as_render)
qed

lemma rel_parts_not_absolute:
  assumes "list_all (\<lambda>q. q \<noteq> [] \<and> slash \<notin> set q) qs" "qs \<noteq> []"
  shows "\<not> is_absolute (str_join ''/'' qs)" "str_join ''/'' qs \<noteq> []"
    "split_on slash (str_join ''/'' qs) = qs"
proof -
  obtain q rest where q: "qs = q # rest" "q \<noteq> []" "slash \<notin> set q"
    using assms by (cases qs) auto
  then show "\<not> is_absolute (str_join ''/'' qs)" "str_join ''/'' qs \<noteq> []"
    by (cases q; cases rest; auto simp: is_absolute_def starts_with_def)+
  show "split_on slash (str_join ''/'' qs) = qs"
    using assms by (intro split_on_str_join) (auto simp: list_all_iff)
qed

lemma rel_walk:
  assumes nb: "norm_parts r bs" and nt: "norm_parts r ts"
    and up: "''..'' \<notin> set (drop n bs)" and n: "n \<le> length bs" "take n bs = take n ts"
  shows "foldl (clean_push r) bs (replicate (length bs - n) ''..'' @ drop n ts) = ts"
proof -
  have "list_all plain (drop n bs)"
    using up norm_parts_mem [OF nb] by (auto simp: list_all_iff dest: in_set_dropD)
  then have "foldl (clean_push r) bs (replicate (length bs - n) ''..'') = take n bs"
    using foldl_clean_push_pop [of r "take n bs" "drop n bs"] nb by simp
  moreover have "foldl (clean_push r) (take n ts) (drop n ts) = ts"
    using foldl_clean_push_extend [of r "take n ts" "drop n ts"] nt by simp
  ultimately show ?thesis using n by simp
qed

text \<open>
  The directory a path leads to, as the names below the root: where the parts go one by one,
  from the root for an absolute path, \<open>..\<close> at the root staying there.
\<close>

definition enter :: "str list \<Rightarrow> str \<Rightarrow> str list" where
  "enter dir part = (if part = [] \<or> part = ''.'' then dir else if part = ''..'' then butlast dir else dir @ [part])"

definition resolve :: "str list \<Rightarrow> str \<Rightarrow> str list" where
  "resolve dir p = foldl enter (if is_absolute p then [] else dir) (split_on slash p)"

lemma enter_skip [simp]: "enter dir [] = dir" "enter dir ''.'' = dir"
  by (simp_all add: enter_def)

lemma enter_clean_push:
  assumes "norm_parts r ps" "r \<Longrightarrow> dir = []"
  shows "foldl enter dir (clean_push r ps s) = enter (foldl enter dir ps) s"
proof (cases "s = ''..'' \<and> ps \<noteq> [] \<and> last ps \<noteq> ''..''")
  case True
  then have "plain (last ps)" using norm_parts_mem [OF assms(1), of "last ps"] by auto
  moreover have "foldl enter dir ps = enter (foldl enter dir (butlast ps)) (last ps)"
    using True foldl_append [of enter dir "butlast ps" "[last ps]"] by simp
  ultimately show ?thesis using True by (auto simp: clean_push_def enter_def)
next
  case False
  then show ?thesis using assms(2) by (auto simp: clean_push_def enter_def)
qed

lemma enter_clean_parts:
  "norm_parts r ps \<Longrightarrow> (r \<Longrightarrow> dir = []) \<Longrightarrow> (\<And>s. s \<in> set ss \<Longrightarrow> slash \<notin> set s)
    \<Longrightarrow> foldl enter dir (foldl (clean_push r) ps ss) = foldl enter (foldl enter dir ps) ss"
proof (induction ss arbitrary: ps)
  case (Cons s ss)
  then show ?case using clean_push_norm [of r ps s] enter_clean_push [of r ps dir s] by simp
qed simp

lemma resolve_parts: "resolve dir p = foldl enter (if is_absolute p then [] else dir) (path_parts p)"
  unfolding resolve_def path_parts_def
  by (subst enter_clean_parts) (auto dest: split_on_no_sep)

lemma resolve_clean: "resolve dir (clean p) = resolve dir p"
  by (simp add: resolve_parts)

section \<open>Properties\<close>

text \<open>
  C28: what \<open>clean\<close> returns. The result is in normal form: a root if the path has one, then
  parts \<open>..\<close> only at the front of a relative path, then names, with no empty and no \<open>.\<close> part, or
  \<open>.\<close> alone when nothing is left; and it leads to the same directory as the path from wherever
  one starts, read lexically.
\<close>

theorem clean_normal_form:
  "(\<exists>ups names. clean p = render (is_absolute p) (replicate ups ''..'' @ names) \<and> list_all plain names
      \<and> (is_absolute p \<longrightarrow> ups = 0))
   \<and> (\<forall>dir. resolve dir (clean p) = resolve dir p)"
  using path_parts_norm [of p] resolve_clean unfolding clean_as_render norm_parts_def by metis

theorem clean_normal_form_witness:
  "(\<exists>names. clean ''/a/../../b//./c'' = ''/'' @ str_join ''/'' names \<and> list_all plain names)
   \<and> resolve [''x''] (clean ''/a/../../b//./c'') = [''b'', ''c'']"
proof -
  let ?p = "''/a/../../b//./c''"
  have a: "is_absolute ?p" by code_simp
  obtain names where "clean ?p = render True names" "list_all plain names"
    using clean_normal_form [of ?p] a by auto
  moreover have "resolve [''x''] ?p = [''b'', ''c'']" by code_simp
  ultimately show ?thesis using clean_normal_form [of ?p] by (auto simp: render_def)
qed

text \<open>
  C21: \<open>rel\<close> is the inverse of \<open>join\<close>: whenever a relative path is returned, joining it
  to the base gives the cleaned target, across any number of \<open>..\<close> steps.
\<close>

theorem rel_join:
  assumes "rel base path = Some r"
  shows "join base r = clean path"
proof (cases "clean base = clean path")
  case True
  then have r: "r = ''.''" using assms by (simp add: rel_def)
  have "join base r = clean base"
    using join_render [of "''.''" base] r
    by (simp add: is_absolute_def starts_with_def clean_as_render)
  with True show ?thesis by simp
next
  case False
  let ?bs = "path_parts base" and ?ts = "path_parts path"
  let ?n = "common_len ?bs ?ts"
  let ?out = "replicate (length ?bs - ?n) ''..'' @ drop ?n ?ts"
  from assms False have ab: "is_absolute base = is_absolute path"
    and up: "''..'' \<notin> set (drop ?n ?bs)"
    and r: "r = (if ?out = [] then ''.'' else str_join ''/'' ?out)"
    by (auto simp: rel_def Let_def split: if_splits)
  have norm: "norm_parts (is_absolute base) ?bs" "norm_parts (is_absolute base) ?ts"
    using path_parts_norm [of base] path_parts_norm [of path] ab by auto
  have walk: "foldl (clean_push (is_absolute base)) ?bs ?out = ?ts"
    by (rule rel_walk [OF norm up]) (rule common_len_props)+
  have ne: "?out \<noteq> []"
    using walk False ab by (auto simp: clean_eq_iff)
  have ok: "list_all (\<lambda>q. q \<noteq> [] \<and> slash \<notin> set q) ?out"
    using norm_parts_nonempty [OF norm(2)] norm_parts_no_slash [OF norm(2)]
    by (auto simp: list_all_iff dest: in_set_dropD)
  note out = rel_parts_not_absolute [OF ok ne]
  have "r = str_join ''/'' ?out" using r ne by (simp only: if_False)
  then have "join base r = render (is_absolute base) ?ts"
    using join_render [OF out(2,1), of base] out(3) walk by (simp only:)
  then show ?thesis by (simp only: ab clean_as_render [of path])
qed

theorem rel_join_witness: "rel ''/a/b'' ''/a/c/d'' = Some ''../c/d'' \<and> join ''/a/b'' ''../c/d'' = clean ''/a/c/d''"
proof -
  have "rel ''/a/b'' ''/a/c/d'' = Some ''../c/d''" by code_simp
  then show ?thesis using rel_join by blast
qed

lemma join_dirs_scan_relative:
  assumes "list_all (\<lambda>d. \<not> is_absolute d) ds" "bs \<noteq> []"
  shows "join_dirs_scan (rev ds @ bs) rest = join_dirs_scan bs (ds @ rest)"
  using assms by (induction ds arbitrary: rest rule: rev_induct) auto

text \<open>
  C29: the rightmost absolute directory of a stack wins, and everything to its left is
  discarded.
\<close>

theorem join_dirs_rightmost_absolute:
  assumes "is_absolute d" "list_all (\<lambda>e. \<not> is_absolute e) after"
  shows "join_dirs (before @ d # after) = foldl join [] (d # after)"
  using assms by (simp add: join_dirs_def join_dirs_scan_relative)

theorem join_dirs_rightmost_absolute_witness:
  "join_dirs ([''/base'', ''sub''] @ ''/override'' # [''leaf'']) = ''/override/leaf''"
proof -
  have "is_absolute ''/override''" "list_all (\<lambda>e. \<not> is_absolute e) [''leaf'']" by code_simp+
  from join_dirs_rightmost_absolute [OF this, of "[''/base'', ''sub'']"]
  have "join_dirs ([''/base'', ''sub''] @ ''/override'' # [''leaf'']) = foldl join [] [''/override'', ''leaf'']" .
  also have "\<dots> = ''/override/leaf''" by code_simp
  finally show ?thesis .
qed

text \<open>A trailing slash of a glob, which makes it match directories only, survives the join.\<close>

lemma join_glob_trailing: "ends_with pattern ''/'' \<Longrightarrow> ends_with (join_glob dir pattern) ''/''"
  by (auto simp: join_glob_def Let_def ends_with_def)

end
