(* ===== verification/Listing.thy ===== *)
theory Listing
  imports TaskPrelude "HOL-Library.Multiset"
begin

text \<open>
  The slice helpers (\<open>crates/taskcore/src/slicesext.rs\<close>) and the orders a task list is
  shown in (\<open>crates/taskcore/src/sort.rs\<close>). The lemmas say that a sorter permutes its
  input, and which order it leaves.
\<close>

section \<open>Comparators and stable sorting\<close>


fun insert_by :: "('a \<Rightarrow> 'a \<Rightarrow> ordering) \<Rightarrow> 'a \<Rightarrow> 'a list \<Rightarrow> 'a list" where
  "insert_by c x [] = [x]"
| "insert_by c x (y # ys) = (if c x y = Greater then y # insert_by c x ys else x # y # ys)"

definition sort_by :: "('a \<Rightarrow> 'a \<Rightarrow> ordering) \<Rightarrow> 'a list \<Rightarrow> 'a list" where
  "sort_by c xs = foldr (insert_by c) xs []"

section \<open>slicesext\<close>

definition unique_join :: "'a::linorder list list \<Rightarrow> 'a list" where
  "unique_join slices = remdups_adj (sort (concat slices))"

definition convert :: "'a list \<Rightarrow> ('a \<Rightarrow> 'b) \<Rightarrow> 'b list" where
  "convert s f = map f s"

section \<open>sort\<close>

datatype sorter = SorterNone | AlphaNumeric | AlphaNumericWithRootTasksFirst

definition no_sort :: "str list \<Rightarrow> str list \<Rightarrow> str list" where
  "no_sort items namespaces = items"

definition alpha_numeric :: "str list \<Rightarrow> str list \<Rightarrow> str list" where
  "alpha_numeric items namespaces = sort items"

definition root_first_cmp :: "str \<Rightarrow> str \<Rightarrow> ordering" where
  "root_first_cmp a b =
     (let a_ns = CHR '':'' \<in> set a; b_ns = CHR '':'' \<in> set b
      in if \<not> a_ns \<and> b_ns then Less else if a_ns \<and> \<not> b_ns then Greater else cmp a b)"

definition alpha_numeric_with_root_tasks_first :: "str list \<Rightarrow> str list \<Rightarrow> str list" where
  "alpha_numeric_with_root_tasks_first items namespaces =
     (if namespaces \<noteq> [] then alpha_numeric items namespaces else sort_by root_first_cmp items)"

fun sorter_sort :: "sorter \<Rightarrow> str list \<Rightarrow> str list \<Rightarrow> str list" where
  "sorter_sort SorterNone items ns = no_sort items ns"
| "sorter_sort AlphaNumeric items ns = alpha_numeric items ns"
| "sorter_sort AlphaNumericWithRootTasksFirst items ns = alpha_numeric_with_root_tasks_first items ns"

section \<open>Lemmas\<close>

lemma mset_insert_by [simp]: "mset (insert_by c x ys) = add_mset x (mset ys)"
  by (induction ys) auto

lemma sort_by_simps [simp]: "sort_by c [] = []" "sort_by c (x # xs) = insert_by c x (sort_by c xs)"
  by (simp_all add: sort_by_def)

lemma mset_sort_by [simp]: "mset (sort_by c xs) = mset xs"
  by (induction xs) auto

abbreviation namespaced :: "str \<Rightarrow> bool" where
  "namespaced s \<equiv> CHR '':'' \<in> set s"

lemma root_first_cmp_Greater:
  "root_first_cmp a b = Greater \<longleftrightarrow> namespaced a \<and> \<not> namespaced b \<or> namespaced a = namespaced b \<and> b < a"
  by (auto simp: root_first_cmp_def cmp_def Let_def)

lemma insert_by_root_first:
  assumes "list_all (\<lambda>s. \<not> namespaced s) as" "list_all namespaced bs"
  shows "insert_by root_first_cmp x (as @ bs) =
    (if namespaced x then as @ insort x bs else insort x as @ bs)"
  using assms
proof (induction as)
  case Nil
  then show ?case by (induction bs) (auto simp: root_first_cmp_Greater not_less)
next
  case (Cons a as)
  then show ?case by (auto simp: root_first_cmp_Greater not_less)
qed

lemma sort_by_root_first:
  "sort_by root_first_cmp xs = sort (filter (\<lambda>s. \<not> namespaced s) xs) @ sort (filter namespaced xs)"
proof (induction xs)
  case (Cons x xs)
  then show ?case
    using insert_by_root_first [of "sort (filter (\<lambda>s. \<not> namespaced s) xs)" "sort (filter namespaced xs)" x]
    by (simp add: list_all_iff)
qed simp

lemma sorted_wrt_remdups_adj: "sorted (xs :: 'a::linorder list) \<Longrightarrow> sorted_wrt (<) (remdups_adj xs)"
  by (induction xs rule: remdups_adj.induct) (auto simp: order.strict_iff_order)

section \<open>Properties\<close>

text \<open>
  C33: without explicit namespaces the default task listing puts every root task before every
  namespaced one, each group in alphabetical order, and loses or repeats no task.
\<close>

theorem root_tasks_first_listing:
  "alpha_numeric_with_root_tasks_first items [] =
     sort (filter (\<lambda>s. CHR '':'' \<notin> set s) items) @ sort (filter (\<lambda>s. CHR '':'' \<in> set s) items)
   \<and> mset (sorter_sort so items ns) = mset items"
proof (rule conjI)
  show "alpha_numeric_with_root_tasks_first items [] =
     sort (filter (\<lambda>s. CHR '':'' \<notin> set s) items) @ sort (filter (\<lambda>s. CHR '':'' \<in> set s) items)"
    by (simp add: alpha_numeric_with_root_tasks_first_def sort_by_root_first)
  show "mset (sorter_sort so items ns) = mset items"
    by (cases so) (simp_all add: alpha_numeric_with_root_tasks_first_def no_sort_def alpha_numeric_def)
qed

text \<open>C34: \<open>unique_join\<close> yields the union of its slices as a strictly sorted list.\<close>

theorem unique_join_sorted_set:
  "set (unique_join slices) = (\<Union>s\<in>set slices. set s) \<and> sorted_wrt (<) (unique_join slices)"
  by (simp add: unique_join_def sorted_wrt_remdups_adj)

end
