(* ===== verification/Fuzzy.thy ===== *)
theory Fuzzy
  imports TaskPrelude
begin

text \<open>
  The "did you mean" suggester (\<open>crates/task/src/fuzzy.rs\<close>): the rolling-row edit
  distance and the search for the nearest candidate. Its specification is the least cost of
  an edit script (\<open>edits\<close>); the two-row computation with saturating 64-bit additions
  is proved to return it, and \<open>suggest\<close> to return the first nearest candidate within
  the threshold.
\<close>

section \<open>Definitions\<close>

definition usize_max :: nat where
  "usize_max = 2 ^ 64 - 1"

definition sat_add :: "nat \<Rightarrow> nat \<Rightarrow> nat" where
  "sat_add a b = min (a + b) usize_max"

text \<open>\<open>row.get(j).copied().unwrap_or(usize::MAX)\<close>\<close>

definition row_get :: "nat list \<Rightarrow> nat \<Rightarrow> nat" where
  "row_get row j = (if j < length row then row ! j else usize_max)"

definition row_set :: "nat list \<Rightarrow> nat \<Rightarrow> nat \<Rightarrow> nat list" where
  "row_set row j v = (if j < length row then row[j := v] else row)"

text \<open>The inner loop over \<open>b\<close> at position \<open>j\<close>, filling \<open>cur\<close>.\<close>

fun lev_row :: "nat \<Rightarrow> nat list \<Rightarrow> nat list \<Rightarrow> nat \<Rightarrow> nat list \<Rightarrow> nat list" where
  "lev_row ca [] prev j cur = cur"
| "lev_row ca (cb # bs) prev j cur =
     (let cost = (if ca = cb then 0 else 1);
          deletion = row_get prev (sat_add j 1);
          insertion = row_get cur j;
          substitution = row_get prev j;
          best = min (min (sat_add deletion 1) (sat_add insertion 1)) (sat_add substitution cost)
      in lev_row ca bs prev (sat_add j 1) (row_set cur (sat_add j 1) best))"

text \<open>The outer loop over \<open>a\<close> at position \<open>i\<close>; the rows are swapped after each turn.\<close>

fun lev_rows :: "nat list \<Rightarrow> nat list \<Rightarrow> nat \<Rightarrow> nat list \<Rightarrow> nat list \<Rightarrow> nat list" where
  "lev_rows [] bs i prev cur = prev"
| "lev_rows (ca # as) bs i prev cur =
     (let cur1 = lev_row ca bs prev 0 (row_set cur 0 (sat_add i 1))
      in lev_rows as bs (sat_add i 1) cur1 prev)"

definition levenshtein :: "str \<Rightarrow> str \<Rightarrow> nat" where
  "levenshtein sa sb =
     (let a = chars sa; b = chars sb
      in if a = [] then length b
         else if b = [] then length a
         else
           let prev = lev_rows a b 0 [0..<Suc (length b)] (replicate (sat_add (length b) 1) 0)
           in if prev = [] then 0 else last prev)"

definition threshold_for :: "str \<Rightarrow> nat" where
  "threshold_for target =
     (let n = length (chars target) in if n \<le> 3 then 1 else if n \<le> 6 then 2 else 3)"

fun suggest_loop :: "str \<Rightarrow> nat \<Rightarrow> str list \<Rightarrow> (nat \<times> str) option \<Rightarrow> (nat \<times> str) option" where
  "suggest_loop target threshold [] best = best"
| "suggest_loop target threshold (c # cs) best =
     (let distance = levenshtein target c
      in if distance > threshold then suggest_loop target threshold cs best
         else
           (case best of
              Some (best_distance, n) \<Rightarrow>
                suggest_loop target threshold cs
                  (if best_distance \<le> distance then Some (best_distance, n) else Some (distance, c))
            | None \<Rightarrow> suggest_loop target threshold cs (Some (distance, c))))"

definition suggest :: "str \<Rightarrow> str list \<Rightarrow> str option" where
  "suggest target candidates = map_option snd (suggest_loop target (threshold_for target) candidates None)"

section \<open>Edit scripts\<close>

text \<open>\<open>edits n xs ys\<close>: \<open>n\<close> insertions, deletions and substitutions turn \<open>xs\<close> into \<open>ys\<close>.\<close>

inductive edits :: "nat \<Rightarrow> 'a list \<Rightarrow> 'a list \<Rightarrow> bool" where
  finish: "edits 0 [] []"
| keep: "edits n xs ys \<Longrightarrow> edits n (x # xs) (x # ys)"
| subst: "edits n xs ys \<Longrightarrow> edits (Suc n) (x # xs) (y # ys)"
| delete: "edits n xs ys \<Longrightarrow> edits (Suc n) (x # xs) ys"
| insert: "edits n xs ys \<Longrightarrow> edits (Suc n) xs (y # ys)"

inductive_cases edits_Nil_leftE: "edits n [] ys"
inductive_cases edits_ConsE: "edits n (x # xs) ys"

fun lev :: "'a list \<Rightarrow> 'a list \<Rightarrow> nat" where
  "lev [] ys = length ys"
| "lev xs [] = length xs"
| "lev (x # xs) (y # ys) =
     min (min (Suc (lev xs (y # ys))) (Suc (lev (x # xs) ys))) (lev xs ys + (if x = y then 0 else 1))"

lemma lev_Nil_right [simp]: "lev xs [] = length xs"
  by (cases xs) simp_all

lemma edits_delete_all: "edits (length xs) xs []"
  by (induction xs) (auto intro: edits.intros)

lemma edits_insert_all: "edits (length ys) [] ys"
  by (induction ys) (auto intro: edits.intros)

lemma edits_lev: "edits (lev xs ys) xs ys"
proof (induction xs ys rule: lev.induct)
  case (3 x xs y ys)
  consider "lev (x # xs) (y # ys) = Suc (lev xs (y # ys))"
    | "lev (x # xs) (y # ys) = Suc (lev (x # xs) ys)"
    | "lev (x # xs) (y # ys) = lev xs ys + (if x = y then 0 else 1)"
    unfolding lev.simps(3) by (metis min_def)
  then show ?case using 3 by cases (auto intro: edits.intros split: if_splits)
qed (auto intro: edits_delete_all [of "_ # _", simplified] edits_insert_all)

lemma lev_Cons_left: "lev (x # xs) ys \<le> Suc (lev xs ys)"
  by (cases ys) auto

lemma lev_Cons_right: "lev xs (y # ys) \<le> Suc (lev xs ys)"
  by (cases xs) auto

lemma lev_Cons_both: "lev (x # xs) (y # ys) \<le> lev xs ys + (if x = y then 0 else 1)"
  by simp

lemma lev_least: "edits n xs ys \<Longrightarrow> lev xs ys \<le> n"
proof (induction rule: edits.induct)
  case (keep n xs ys x)
  then show ?case using lev_Cons_both [of x xs x ys] by simp
next
  case (subst n xs ys x y)
  then show ?case using lev_Cons_both [of x xs y ys] by (auto simp del: lev.simps split: if_splits)
next
  case (delete n xs ys x)
  then show ?case using lev_Cons_left [of x xs ys] by simp
next
  case (insert n xs ys y)
  then show ?case using lev_Cons_right [of xs y ys] by simp
qed simp

lemma lev_eq_Least: "lev xs ys = (LEAST n. edits n xs ys)"
  by (rule Least_equality [symmetric]) (auto intro: edits_lev lev_least)

lemma edits_append: "edits m a b \<Longrightarrow> edits n c d \<Longrightarrow> edits (m + n) (a @ c) (b @ d)"
  by (induction rule: edits.induct) (auto intro: edits.intros)

lemma edits_rev: "edits n xs ys \<Longrightarrow> edits n (rev xs) (rev ys)"
proof (induction rule: edits.induct)
  case (keep n xs ys x)
  have "edits 0 [x] [x]" by (auto intro: edits.intros)
  from edits_append [OF keep.IH this] show ?case by simp
next
  case (subst n xs ys x y)
  have "edits 1 [x] [y]" using edits.subst [OF edits.finish, of x y] by simp
  from edits_append [OF subst.IH this] show ?case by simp
next
  case (delete n xs ys x)
  have "edits 1 [x] []" using edits.delete [OF edits.finish, of x] by simp
  from edits_append [OF delete.IH this] show ?case by simp
next
  case (insert n xs ys y)
  have "edits 1 [] [y]" using edits.insert [OF edits.finish, of y] by simp
  from edits_append [OF insert.IH this] show ?case by simp
qed (auto intro: edits.intros)

lemma lev_rev: "lev (rev xs) (rev ys) = lev xs ys"
  by (metis antisym edits_lev edits_rev lev_least rev_rev_ident)

text \<open>The distance by last characters, as the rows compute it.\<close>

lemma lev_snoc:
  "lev (xs @ [x]) (ys @ [y]) =
     min (min (Suc (lev xs (ys @ [y]))) (Suc (lev (xs @ [x]) ys))) (lev xs ys + (if x = y then 0 else 1))"
  using lev.simps(3) [of x "rev xs" y "rev ys"] lev_rev [of "xs @ [x]" "ys @ [y]"]
    lev_rev [of xs "ys @ [y]"] lev_rev [of "xs @ [x]" ys] lev_rev [of xs ys]
  by simp

lemma lev_le: "lev xs ys \<le> length xs + length ys"
  using edits_append [OF edits_delete_all [of xs] edits_insert_all [of ys]] by (simp add: lev_least)

section \<open>The rows\<close>

definition lev_table :: "nat list \<Rightarrow> nat list \<Rightarrow> nat list" where
  "lev_table a b = map (\<lambda>j. lev a (take j b)) [0..<Suc (length b)]"

lemma length_lev_table [simp]: "length (lev_table a b) = Suc (length b)"
  by (simp add: lev_table_def)

lemma lev_table_nth: "j \<le> length b \<Longrightarrow> lev_table a b ! j = lev a (take j b)"
  by (simp add: lev_table_def del: upt_Suc)

lemma sat_add_small: "a + b \<le> usize_max \<Longrightarrow> sat_add a b = a + b"
  by (simp add: sat_add_def)

lemma length_row_set [simp]: "length (row_set r j v) = length r"
  by (simp add: row_set_def)

lemma length_lev_row [simp]: "length (lev_row ca bs prev j cur) = length cur"
  by (induction bs arbitrary: j cur) (simp_all add: Let_def)

text \<open>
  The inner loop: once the first \<open>j + 1\<close> entries of \<open>cur\<close> are right, the loop over the
  remaining characters of \<open>b\<close> makes all of them right.
\<close>

lemma lev_row_correct:
  assumes "b = done_b @ bs" "length done_b = j" "length cur = Suc (length b)"
    and "\<And>i. i \<le> j \<Longrightarrow> cur ! i = lev (a @ [ca]) (take i b)"
    and "length a + length b + 2 \<le> usize_max"
  shows "lev_row ca bs (lev_table a b) j cur = lev_table (a @ [ca]) b"
  using assms(1-4)
proof (induction bs arbitrary: done_b j cur)
  case Nil
  then show ?case
    by (intro nth_equalityI) (auto simp: lev_table_nth less_Suc_eq_le)
next
  case (Cons cb bs)
  have j: "j < length b" using Cons.prems by simp
  have tk: "take (Suc j) b = take j b @ [cb]" using Cons.prems by (simp add: take_Suc_conv_app_nth)
  have small: "lev x (take i b) + 1 \<le> usize_max" if "length x \<le> Suc (length a)" for x i
    using lev_le [of x "take i b"] that assms(5) by (simp add: min_def split: if_splits)
  let ?best = "lev (a @ [ca]) (take (Suc j) b)"
  have js: "sat_add j 1 = Suc j" using j assms(5) by (simp add: sat_add_small)
  have best: "min (min (sat_add (row_get (lev_table a b) (Suc j)) 1) (sat_add (row_get cur j) 1))
      (sat_add (row_get (lev_table a b) j) (if ca = cb then 0 else 1)) = ?best"
    using j Cons.prems(3,4) small [of a "Suc j"] small [of "a @ [ca]" j] small [of a j]
    by (simp add: row_get_def lev_table_nth tk lev_snoc sat_add_small)
  let ?cur = "cur[Suc j := ?best]"
  have "lev_row ca bs (lev_table a b) (Suc j) ?cur = lev_table (a @ [ca]) b"
  proof (rule Cons.IH)
    show "b = (done_b @ [cb]) @ bs" "length (done_b @ [cb]) = Suc j" "length ?cur = Suc (length b)"
      using Cons.prems by auto
    show "?cur ! i = lev (a @ [ca]) (take i b)" if "i \<le> Suc j" for i
      using that Cons.prems(3,4) j by (cases "i = Suc j") auto
  qed
  then show ?case
    using js best j Cons.prems(3) by (simp add: Let_def row_set_def)
qed

lemma lev_row_set_zero:
  assumes "length cur = Suc (length b)" "i < usize_max"
  shows "row_set cur 0 (sat_add i 1) ! 0 = Suc i"
  using assms by (simp add: row_set_def sat_add_small)

lemma lev_rows_correct:
  assumes "length pre = i" "length cur = Suc (length b)"
    and "length (pre @ as) + length b + 2 \<le> usize_max"
  shows "lev_rows as b i (lev_table pre b) cur = lev_table (pre @ as) b"
  using assms
proof (induction as arbitrary: pre i cur)
  case (Cons ca as)
  have i: "sat_add i 1 = Suc i" using Cons.prems by (simp add: sat_add_small)
  have row: "lev_row ca b (lev_table pre b) 0 (row_set cur 0 (Suc i)) = lev_table (pre @ [ca]) b"
  proof (rule lev_row_correct)
    show "b = [] @ b" "length ([]::nat list) = 0" by simp_all
    show "length (row_set cur 0 (Suc i)) = Suc (length b)" using Cons.prems by simp
    show "row_set cur 0 (Suc i) ! k = lev (pre @ [ca]) (take k b)" if "k \<le> 0" for k
      using that Cons.prems by (simp add: row_set_def)
    show "length pre + length b + 2 \<le> usize_max" using Cons.prems by simp
  qed
  have "lev_rows as b (Suc i) (lev_table (pre @ [ca]) b) (lev_table pre b)
      = lev_table ((pre @ [ca]) @ as) b"
    by (rule Cons.IH) (use Cons.prems in simp_all)
  then show ?case using row i by (simp add: Let_def)
qed simp

lemma lev_table_Nil: "lev_table [] b = [0..<Suc (length b)]"
  by (intro nth_equalityI) (simp_all add: lev_table_nth del: upt_Suc)

lemma levenshtein_lev:
  assumes "length (chars a) + length (chars b) + 2 \<le> usize_max"
  shows "levenshtein a b = lev (chars a) (chars b)"
proof -
  let ?a = "chars a" and ?b = "chars b"
  have "lev_rows ?a ?b 0 (lev_table [] ?b) (replicate (Suc (length ?b)) 0) = lev_table ([] @ ?a) ?b"
    by (rule lev_rows_correct) (use assms in simp_all)
  moreover have "lev_table ?a ?b \<noteq> []" by (simp add: lev_table_def)
  moreover have "last (lev_table ?a ?b) = lev ?a ?b"
    by (simp add: last_conv_nth \<open>lev_table ?a ?b \<noteq> []\<close> lev_table_nth)
  ultimately show ?thesis
    using assms by (simp add: levenshtein_def Let_def lev_table_Nil sat_add_small del: upt_Suc)
qed

section \<open>The search\<close>

text \<open>
  The running best is the first candidate at the least distance among those within the
  threshold that the loop has seen.
\<close>

definition nearest :: "str \<Rightarrow> nat \<Rightarrow> str list \<Rightarrow> (nat \<times> str) option \<Rightarrow> bool" where
  "nearest target threshold seen best = (case best of
     None \<Rightarrow> (\<forall>c\<in>set seen. threshold < levenshtein target c)
   | Some (d, n) \<Rightarrow> d = levenshtein target n \<and> d \<le> threshold
       \<and> (\<exists>before after. seen = before @ n # after
            \<and> (\<forall>c\<in>set before. d < levenshtein target c)
            \<and> (\<forall>c\<in>set after. d \<le> levenshtein target c)))"

lemma nearest_skip:
  assumes "nearest target t seen best" "t < levenshtein target c"
  shows "nearest target t (seen @ [c]) best"
proof (cases best)
  case None
  with assms show ?thesis by (auto simp: nearest_def)
next
  case (Some p)
  then obtain d n where p: "best = Some (d, n)" by (cases p) auto
  with assms obtain before after where *: "seen = before @ n # after"
    "\<forall>c\<in>set before. d < levenshtein target c" "\<forall>c\<in>set after. d \<le> levenshtein target c"
    "d = levenshtein target n" "d \<le> t"
    by (auto simp: nearest_def)
  then have "seen @ [c] = before @ n # (after @ [c])" "\<forall>x\<in>set (after @ [c]). d \<le> levenshtein target x"
    using assms(2) by auto
  with * p show ?thesis unfolding nearest_def by fastforce
qed

lemma nearest_keep:
  assumes "nearest target t seen (Some (d, n))" "d \<le> levenshtein target c"
  shows "nearest target t (seen @ [c]) (Some (d, n))"
proof -
  from assms obtain before after where *: "seen = before @ n # after"
    "\<forall>c\<in>set before. d < levenshtein target c" "\<forall>c\<in>set after. d \<le> levenshtein target c"
    "d = levenshtein target n" "d \<le> t"
    by (auto simp: nearest_def)
  then have "seen @ [c] = before @ n # (after @ [c])" "\<forall>x\<in>set (after @ [c]). d \<le> levenshtein target x"
    using assms(2) by auto
  with * show ?thesis unfolding nearest_def by fastforce
qed

lemma nearest_replace:
  assumes "nearest target t seen best" "levenshtein target c \<le> t"
    and "\<And>d n. best = Some (d, n) \<Longrightarrow> levenshtein target c < d"
  shows "nearest target t (seen @ [c]) (Some (levenshtein target c, c))"
proof -
  have "\<forall>x\<in>set seen. levenshtein target c < levenshtein target x"
  proof (cases best)
    case None
    with assms show ?thesis by (fastforce simp: nearest_def)
  next
    case (Some p)
    then obtain d n where "best = Some (d, n)" by (cases p) auto
    with assms(1) assms(3) [of d n] show ?thesis by (fastforce simp: nearest_def)
  qed
  with assms(2) show ?thesis by (force simp: nearest_def)
qed

lemma suggest_loop_nearest:
  "nearest target t seen best \<Longrightarrow> nearest target t (seen @ cs) (suggest_loop target t cs best)"
proof (induction cs arbitrary: seen best)
  case (Cons c cs)
  have step: "nearest target t ((seen @ [c]) @ cs) (suggest_loop target t cs b)"
    if "nearest target t (seen @ [c]) b" for b
    using Cons.IH [OF that] .
  show ?case
  proof (cases "t < levenshtein target c")
    case True
    then show ?thesis using step [OF nearest_skip [OF Cons.prems True]] by (simp add: Let_def)
  next
    case False
    show ?thesis
    proof (cases best)
      case None
      with False show ?thesis
        using step [OF nearest_replace [OF Cons.prems]] by (simp add: Let_def)
    next
      case (Some p)
      then obtain d n where p: "best = Some (d, n)" by (cases p) auto
      show ?thesis
      proof (cases "d \<le> levenshtein target c")
        case True
        with False p show ?thesis
          using step [OF nearest_keep [of target t seen d n c]] Cons.prems by (simp add: Let_def)
      next
        case worse: False
        with False p show ?thesis
          using step [OF nearest_replace [OF Cons.prems, of c]] by (simp add: Let_def)
      qed
    qed
  qed
qed simp

section \<open>Properties\<close>

text \<open>
  C22: the two-row computation returns the edit distance, the least number of insertions,
  deletions and substitutions of Unicode scalars that turn one name into the other, for all
  names whose lengths stay clear of the saturation of the 64-bit counters.
\<close>

theorem levenshtein_is_edit_distance:
  assumes "length (chars a) + length (chars b) + 2 \<le> usize_max"
  shows "levenshtein a b = (LEAST n. edits n (chars a) (chars b))"
  using levenshtein_lev [OF assms] by (simp add: lev_eq_Least)

theorem levenshtein_is_edit_distance_witness:
  "levenshtein ''biuld'' ''build'' = (LEAST n. edits n (chars ''biuld'') (chars ''build''))
   \<and> levenshtein ''biuld'' ''build'' = 2"
proof (rule conjI)
  show "levenshtein ''biuld'' ''build'' = (LEAST n. edits n (chars ''biuld'') (chars ''build''))"
    by (rule levenshtein_is_edit_distance) (simp add: usize_max_def)
  show "levenshtein ''biuld'' ''build'' = 2"
    by (subst levenshtein_lev) (simp_all add: usize_max_def)
qed

text \<open>
  C23: \<open>suggest\<close> returns the first candidate at the least edit distance when one is within
  the threshold (farther candidates come before it, none nearer after it), and nothing exactly
  when every candidate is out of reach.
\<close>

theorem suggest_nearest:
  "case suggest target candidates of
     None \<Rightarrow> \<forall>c\<in>set candidates. threshold_for target < levenshtein target c
   | Some n \<Rightarrow> levenshtein target n \<le> threshold_for target
       \<and> (\<exists>before after. candidates = before @ n # after
            \<and> (\<forall>c\<in>set before. levenshtein target n < levenshtein target c)
            \<and> (\<forall>c\<in>set after. levenshtein target n \<le> levenshtein target c))"
  using suggest_loop_nearest [of target "threshold_for target" "[]" None candidates]
  by (auto simp: suggest_def nearest_def split: option.splits prod.splits)


lemma suggest_buld:
  "suggest ''buld'' [''test'', ''build''] = Some ''build''"
proof -
  have "levenshtein ''buld'' ''test'' = 4" and "levenshtein ''buld'' ''build'' = 1"
    by (subst levenshtein_lev; simp add: usize_max_def)+
  then show ?thesis by (simp add: suggest_def threshold_for_def)
qed

theorem suggest_nearest_witness:
  "suggest ''buld'' [''test'', ''build''] = Some ''build''
   \<and> levenshtein ''buld'' ''build'' \<le> threshold_for ''buld''"
  using suggest_nearest [where target = "''buld''" and candidates = "[''test'', ''build'']"] by (simp add: suggest_buld)

end
