(* ===== verification/Yaml.thy ===== *)
theory Yaml
  imports TaskPrelude
begin

text \<open>
  YAML values and numbers (\<open>yaml/value.rs\<close>, \<open>yaml/number.rs\<close>, \<open>yaml/tagged.rs\<close>,
  \<open>yaml/mapping.rs\<close>) and the typed reading of a value (\<open>yaml/value_de.rs\<close>): the primitive
  readers of strings, booleans, sequences, options and structs through which the derived
  \<open>Deserialize\<close> implementations of the syntax tree go.

  A \<open>f64\<close> is its 64-bit pattern. The digits of a number come from the \<open>itoa\<close> and
  \<open>ryu\<close> crates and are parameters (\<open>num_fmt\<close>). Errors carry the message the code
  raises itself; the texts of the serde runtime are collapsed into \<open>Serde\<close>.
\<close>

section \<open>Numbers\<close>

datatype number = PosInt u64 | NegInt u64 | Float u64

text \<open>IEEE binary64 by its bits: exponent all ones is infinite, or NaN with a mantissa.\<close>

definition f64_magnitude :: "u64 \<Rightarrow> nat" where
  "f64_magnitude x = unat x mod 2 ^ 63"

definition f64_inf_bits :: nat where
  "f64_inf_bits = 2047 * 2 ^ 52"

definition is_nan :: "u64 \<Rightarrow> bool" where
  "is_nan x = (f64_magnitude x > f64_inf_bits)"

definition is_infinite :: "u64 \<Rightarrow> bool" where
  "is_infinite x = (f64_magnitude x = f64_inf_bits)"

definition is_sign_negative :: "u64 \<Rightarrow> bool" where
  "is_sign_negative x = (unat x \<ge> 2 ^ 63)"

text \<open>The value order of the non-NaN floats; both zeros have the key 0.\<close>

definition f64_key :: "u64 \<Rightarrow> int" where
  "f64_key x = (if is_sign_negative x then - int (f64_magnitude x) else int (f64_magnitude x))"

text \<open>\<open>f64::partial_cmp\<close>\<close>

definition f64_partial_cmp :: "u64 \<Rightarrow> u64 \<Rightarrow> ordering option" where
  "f64_partial_cmp a b = (if is_nan a \<or> is_nan b then None else Some (cmp (f64_key a) (f64_key b)))"

text \<open>The crates that print numbers: \<open>itoa\<close> on \<open>u64\<close> and \<open>i64\<close>, \<open>ryu\<close> on finite floats.\<close>

record num_fmt =
  itoa_u64 :: "u64 \<Rightarrow> str"
  itoa_i64 :: "u64 \<Rightarrow> str"
  ryu_finite :: "u64 \<Rightarrow> str"

fun number_display :: "num_fmt \<Rightarrow> number \<Rightarrow> str" where
  "number_display f (PosInt i) = itoa_u64 f i"
| "number_display f (NegInt i) = itoa_i64 f i"
| "number_display f (Float x) =
     (if is_nan x then ''.nan''
      else if is_infinite x then (if is_sign_negative x then ''-.inf'' else ''.inf'')
      else ryu_finite f x)"

fun as_i64 :: "number \<Rightarrow> u64 option" where
  "as_i64 (PosInt n) = (if unat n < 2 ^ 63 then Some n else None)"
| "as_i64 (NegInt n) = Some n"
| "as_i64 (Float x) = None"

fun number_eq :: "number \<Rightarrow> number \<Rightarrow> bool" where
  "number_eq (PosInt a) (PosInt b) = (a = b)"
| "number_eq (NegInt a) (NegInt b) = (a = b)"
| "number_eq (Float a) (Float b) =
     (if is_nan a \<and> is_nan b then True else f64_partial_cmp a b = Some Equal)"
| "number_eq _ _ = False"

fun number_total_cmp :: "number \<Rightarrow> number \<Rightarrow> ordering" where
  "number_total_cmp (PosInt a) (PosInt b) = cmp a b"
| "number_total_cmp (NegInt a) (NegInt b) = cmp (sint a) (sint b)"
| "number_total_cmp (NegInt _) (PosInt _) = Less"
| "number_total_cmp (PosInt _) (NegInt _) = Greater"
| "number_total_cmp (Float a) (Float b) =
     (case f64_partial_cmp a b of
        Some c \<Rightarrow> c
      | None \<Rightarrow> if \<not> is_nan a then Less else if \<not> is_nan b then Greater else Equal)"
| "number_total_cmp _ (Float _) = Less"
| "number_total_cmp (Float _) _ = Greater"

text \<open>\<open>From<i64>\<close> and \<open>From<f64>\<close>: a float keeps its bits, except that there is one NaN.\<close>

definition number_of_i64 :: "u64 \<Rightarrow> number" where
  "number_of_i64 i = (if sint i < 0 then NegInt i else PosInt i)"

definition number_of_f64 :: "u64 \<Rightarrow> number" where
  "number_of_f64 f = Float (if is_nan f then 0x7FF8000000000000 else f)"

section \<open>Values\<close>

datatype yaml =
    Null
  | Bool bool
  | Number number
  | String str
  | Sequence "yaml list"
  | Mapping "(yaml \<times> yaml) list"
  | Tagged str yaml

fun untag :: "yaml \<Rightarrow> yaml" where
  "untag (Tagged t v) = untag v"
| "untag v = v"

definition as_str :: "yaml \<Rightarrow> str option" where
  "as_str v = (case untag v of String s \<Rightarrow> Some s | _ \<Rightarrow> None)"

definition nobang :: "str \<Rightarrow> str" where
  "nobang t = (case strip_prefix ''!'' t of Some u \<Rightarrow> if u = [] then t else u | None \<Rightarrow> t)"

definition tag_display :: "str \<Rightarrow> str" where
  "tag_display t = ''!'' @ nobang t"

section \<open>Reading a value\<close>

datatype decode_error = Message str | TypeMessage str | Serde

type_synonym 'a decoder = "yaml \<Rightarrow> (decode_error, 'a) result"

definition de_string :: "str decoder" where
  "de_string v = (case untag v of String s \<Rightarrow> Inr s | _ \<Rightarrow> Inl Serde)"

definition de_bool :: "bool decoder" where
  "de_bool v = (case untag v of Bool b \<Rightarrow> Inr b | _ \<Rightarrow> Inl Serde)"

definition de_option :: "'a decoder \<Rightarrow> 'a option decoder" where
  "de_option d v = (case v of Null \<Rightarrow> Inr None | _ \<Rightarrow> map_sum id Some (d v))"

text \<open>\<open>SeqAccess\<close>: the elements in order, stopping at the first error.\<close>

fun de_elems :: "'a decoder \<Rightarrow> yaml list \<Rightarrow> (decode_error, 'a list) result" where
  "de_elems d [] = Inr []"
| "de_elems d (v # vs) = try_bind (d v) (\<lambda>x. try_bind (de_elems d vs) (\<lambda>xs. Inr (x # xs)))"

definition de_vec :: "'a decoder \<Rightarrow> 'a list decoder" where
  "de_vec d v = (case untag v of
     Sequence vs \<Rightarrow> de_elems d vs
   | Null \<Rightarrow> Inr []
   | _ \<Rightarrow> Inl Serde)"

text \<open>
  A derived struct reader: keys are strings, a repeated field is an error, unknown fields are
  ignored unless \<open>deny_unknown_fields\<close> is set. A null reads as the empty mapping.
\<close>

definition field_names :: "(yaml \<times> yaml) list \<Rightarrow> (decode_error, str list) result" where
  "field_names m = de_elems de_string (map fst m)"

definition de_struct :: "str list \<Rightarrow> bool \<Rightarrow> yaml \<Rightarrow> (decode_error, (str \<times> yaml) list) result" where
  "de_struct known deny v = (case untag v of
     Mapping m \<Rightarrow> try_bind (field_names m) (\<lambda>names.
        let fs = filter (\<lambda>(k, _). k \<in> set known) (zip names (map snd m))
        in if deny \<and> \<not> list_all (\<lambda>k. k \<in> set known) names then Inl Serde
           else if \<not> distinct (map fst fs) then Inl Serde
           else Inr fs)
   | Null \<Rightarrow> Inr []
   | _ \<Rightarrow> Inl Serde)"

text \<open>A field with \<open>serde(default)\<close>, and an \<open>Option\<close> field, absent when missing.\<close>

definition field :: "(str \<times> yaml) list \<Rightarrow> str \<Rightarrow> 'a \<Rightarrow> 'a decoder \<Rightarrow> (decode_error, 'a) result" where
  "field fs k dflt d = (case map_of fs k of None \<Rightarrow> Inr dflt | Some v \<Rightarrow> d v)"

definition opt_field :: "(str \<times> yaml) list \<Rightarrow> str \<Rightarrow> 'a decoder \<Rightarrow> (decode_error, 'a option) result" where
  "opt_field fs k d = field fs k None (de_option d)"

section \<open>Lemmas\<close>

lemma untag_untag [simp]: "untag (untag v) = untag v"
  by (induction v rule: untag.induct) simp_all

lemma de_elems_Inr:
  "de_elems d vs = Inr xs \<longleftrightarrow> list_all2 (\<lambda>v x. d v = Inr x) vs xs"
  by (induction vs arbitrary: xs) (auto simp: list_all2_Cons1)

lemma de_elems_all:
  assumes "de_elems d vs = Inr xs" and "\<And>v x. d v = Inr x \<Longrightarrow> P x"
  shows "list_all P xs"
  using assms unfolding de_elems_Inr by (induction rule: list_all2_induct) auto

lemma de_vec_all:
  assumes "de_vec d v = Inr xs" and "\<And>v x. d v = Inr x \<Longrightarrow> P x"
  shows "list_all P xs"
  using assms by (auto simp: de_vec_def split: yaml.splits intro: de_elems_all)

lemma de_option_Some:
  assumes "de_option d v = Inr (Some x)" shows "d v = Inr x"
  using assms by (cases "d v") (auto simp: de_option_def split: yaml.splits)

lemma field_holds:
  assumes "field fs k dflt d = Inr x" "P dflt" "\<And>v x. d v = Inr x \<Longrightarrow> P x"
  shows "P x"
  using assms by (auto simp: field_def split: option.splits)

lemma opt_field_holds:
  assumes "opt_field fs k d = Inr (Some x)" "\<And>v x. d v = Inr x \<Longrightarrow> P x"
  shows "P x"
  using assms de_option_Some by (fastforce simp: opt_field_def field_def split: option.splits)

text \<open>The total order of the numbers: a key in a lexicographic product of integers.\<close>

fun number_key :: "number \<Rightarrow> int \<times> int" where
  "number_key (NegInt a) = (0, sint a)"
| "number_key (PosInt a) = (1, uint a)"
| "number_key (Float a) = (if is_nan a then (3, 0) else (2, f64_key a))"

definition key_less :: "int \<times> int \<Rightarrow> int \<times> int \<Rightarrow> bool" where
  "key_less p q = (fst p < fst q \<or> fst p = fst q \<and> snd p < snd q)"

lemma number_total_cmp_key:
  "number_total_cmp a b =
     (if key_less (number_key a) (number_key b) then Less
      else if number_key a = number_key b then Equal else Greater)"
  by (cases a; cases b)
     (auto simp: key_less_def cmp_def f64_partial_cmp_def word_less_def word_uint_eq_iff)

end
