(* ===== verification/Ast.thy ===== *)
theory Ast
  imports Yaml Paths Listing
begin

text \<open>
  The syntax tree of a Taskfile (\<open>ast/*.rs\<close>): one record per struct, every field of the
  source, and the operations on them that do not cross files (\<open>Vars\<close>, \<open>Glob\<close>, the names of
  a task and its wildcard match, platforms, required variables, \<open>goext.rs\<close>). The ordered
  maps \<open>Vars\<close>, \<open>Matrix\<close>, \<open>Includes\<close> and \<open>Tasks\<close> are instances of the
  insertion-ordered map of the prelude.
\<close>

section \<open>Data\<close>

datatype dialect = Go | Jinja

record var =
  v_value :: "yaml option"
  v_live :: "yaml option"
  v_sh :: "str option"
  v_ref :: str
  v_dir :: str
  v_dialect :: dialect

type_synonym vars = "(str, var) index_map"

record matrix_row =
  mr_ref :: str
  mr_value :: "yaml list"

type_synonym matrix = "(str, matrix_row) index_map"

record for_loop =
  f_from :: str
  f_list :: "yaml list"
  f_matrix :: "matrix option"
  f_var :: str
  f_split :: str
  f_as :: str

record platform =
  p_os :: str
  p_arch :: str

record cmd =
  c_cmd :: str
  c_task :: str
  c_for :: "for_loop option"
  c_if :: str
  c_silent :: bool
  c_set :: "str list"
  c_shopt :: "str list"
  c_vars :: "vars option"
  c_ignore_error :: bool
  c_defer :: bool
  c_platforms :: "platform list"

record dep =
  d_task :: str
  d_for :: "for_loop option"
  d_vars :: "vars option"
  d_silent :: bool
  d_fingerprint :: "bool option"

record glob =
  g_glob :: str
  g_negate :: bool
  g_fingerprint :: str
  g_from :: str
  g_task :: str
  g_vars :: "vars option"
  g_group :: u32
  g_folded :: bool

record precondition =
  pc_sh :: str
  pc_msg :: str

record vars_with_validation =
  vv_name :: str
  vv_enum_values :: "str list"

type_synonym requires = "vars_with_validation list"

record cache =
  ca_inherit :: str
  ca_enabled :: "bool option"
  ca_if :: str
  ca_url :: str
  ca_lock :: str
  ca_vk :: str
  ca_api_key :: str
  ca_namespace :: str
  ca_ttl :: str
  ca_lock_timeout :: str
  ca_outside_links :: "bool option"
  ca_dialect :: dialect

datatype grant_kind = Generates | Writes | Dotenv

record grant =
  gr_what :: str
  gr_declared :: str
  gr_path :: str
  gr_kind :: grant_kind

record sandbox =
  sb_reads :: "glob list"
  sb_writes :: "str list"
  sb_write_tasks :: "glob list"
  sb_task_grants :: "(str \<times> grant list) list"

record location =
  l_line :: nat
  l_column :: nat
  l_taskfile :: str

record pending_cmd =
  pd_index :: nat
  pd_cmd :: str
  pd_if :: str
  pd_extra :: "(str, yaml) index_map"

record task =
  t_task :: str
  t_setup :: "dep list"
  t_cmds :: "cmd list"
  t_deps :: "dep list"
  t_label :: str
  t_desc :: str
  t_prompt :: "str list"
  t_summary :: str
  t_requires :: "requires option"
  t_aliases :: "str list"
  t_sources :: "glob list"
  t_generates :: "glob list"
  t_cache :: "cache option"
  t_sandbox :: "sandbox option"
  t_preconditions :: "precondition list"
  t_dirs :: "str list"
  t_set :: "str list"
  t_shopt :: "str list"
  t_vars :: "vars option"
  t_env :: "vars option"
  t_dotenv :: "str list"
  t_silent :: "bool option"
  t_interactive :: bool
  t_internal :: bool
  t_prefix :: str
  t_ignore_error :: bool
  t_run :: str
  t_platforms :: "platform list"
  t_if :: str
  t_watch :: bool
  t_location :: "location option"
  t_failfast :: bool
  t_namespace :: str
  t_dialect :: dialect
  t_include_vars :: "vars option"
  t_included_taskfile_vars :: "vars option"
  t_full_name :: str
  t_raw_cmds :: "cmd list"
  t_source_hash :: str
  t_cache_checksum :: str
  t_cache_vars_digest :: str
  t_reads_checksum :: bool
  t_pending_cmds :: "pending_cmd list"

type_synonym tasks = "(str, task) index_map"

record include_decl =
  i_namespace :: str
  i_taskfile :: str
  i_dir :: str
  i_optional :: bool
  i_internal :: bool
  i_aliases :: "str list"
  i_excludes :: "str list"
  i_advanced_import :: bool
  i_vars :: "vars option"
  i_flatten :: bool

type_synonym includes_map = "(str, include_decl) index_map"

record output_group =
  og_begin :: str
  og_end :: str
  og_error_only :: bool

record output_style =
  o_name :: str
  o_group :: output_group

record taskfile =
  tf_location :: str
  tf_version :: "str option"
  tf_output :: output_style
  tf_includes :: includes_map
  tf_set :: "str list"
  tf_shopt :: "str list"
  tf_vars :: vars
  tf_env :: vars
  tf_tasks :: tasks
  tf_silent :: bool
  tf_dotenv :: "str list"
  tf_run :: str
  tf_interval :: str
  tf_caches :: "(str, cache) index_map"
  tf_templater :: dialect
  tf_templater_explicit :: bool

record call =
  call_task :: str
  call_vars :: vars
  call_silent :: bool
  call_indirect :: bool

section \<open>Defaults\<close>

definition default_var :: var where
  "default_var = \<lparr>v_value = None, v_live = None, v_sh = None, v_ref = [], v_dir = [], v_dialect = Go\<rparr>"

definition default_for :: for_loop where
  "default_for = \<lparr>f_from = [], f_list = [], f_matrix = None, f_var = [], f_split = [], f_as = []\<rparr>"

definition default_platform :: platform where
  "default_platform = \<lparr>p_os = [], p_arch = []\<rparr>"

definition default_cmd :: cmd where
  "default_cmd = \<lparr>c_cmd = [], c_task = [], c_for = None, c_if = [], c_silent = False, c_set = [],
     c_shopt = [], c_vars = None, c_ignore_error = False, c_defer = False, c_platforms = []\<rparr>"

definition default_dep :: dep where
  "default_dep = \<lparr>d_task = [], d_for = None, d_vars = None, d_silent = False, d_fingerprint = None\<rparr>"

definition default_glob :: glob where
  "default_glob = \<lparr>g_glob = [], g_negate = False, g_fingerprint = [], g_from = [], g_task = [],
     g_vars = None, g_group = 0, g_folded = False\<rparr>"

definition default_cache :: cache where
  "default_cache = \<lparr>ca_inherit = [], ca_enabled = None, ca_if = [], ca_url = [], ca_lock = [],
     ca_vk = [], ca_api_key = [], ca_namespace = [], ca_ttl = [], ca_lock_timeout = [],
     ca_outside_links = None, ca_dialect = Go\<rparr>"

definition default_sandbox :: sandbox where
  "default_sandbox = \<lparr>sb_reads = [], sb_writes = [], sb_write_tasks = [], sb_task_grants = []\<rparr>"

definition default_location :: location where
  "default_location = \<lparr>l_line = 0, l_column = 0, l_taskfile = []\<rparr>"

definition default_task :: task where
  "default_task = \<lparr>t_task = [], t_setup = [], t_cmds = [], t_deps = [], t_label = [], t_desc = [],
     t_prompt = [], t_summary = [], t_requires = None, t_aliases = [], t_sources = [],
     t_generates = [], t_cache = None, t_sandbox = None, t_preconditions = [], t_dirs = [],
     t_set = [], t_shopt = [], t_vars = None, t_env = None, t_dotenv = [], t_silent = None,
     t_interactive = False, t_internal = False, t_prefix = [], t_ignore_error = False, t_run = [],
     t_platforms = [], t_if = [], t_watch = False, t_location = None, t_failfast = False,
     t_namespace = [], t_dialect = Go, t_include_vars = None, t_included_taskfile_vars = None,
     t_full_name = [], t_raw_cmds = [], t_source_hash = [], t_cache_checksum = [],
     t_cache_vars_digest = [], t_reads_checksum = False, t_pending_cmds = []\<rparr>"

definition default_include :: include_decl where
  "default_include = \<lparr>i_namespace = [], i_taskfile = [], i_dir = [], i_optional = False,
     i_internal = False, i_aliases = [], i_excludes = [], i_advanced_import = False,
     i_vars = None, i_flatten = False\<rparr>"

definition default_output_group :: output_group where
  "default_output_group = \<lparr>og_begin = [], og_end = [], og_error_only = False\<rparr>"

definition default_output :: output_style where
  "default_output = \<lparr>o_name = [], o_group = default_output_group\<rparr>"

definition default_taskfile :: taskfile where
  "default_taskfile = \<lparr>tf_location = [], tf_version = None, tf_output = default_output, tf_includes = [],
     tf_set = [], tf_shopt = [], tf_vars = [], tf_env = [], tf_tasks = [], tf_silent = False,
     tf_dotenv = [], tf_run = [], tf_interval = [], tf_caches = [], tf_templater = Go,
     tf_templater_explicit = False\<rparr>"

definition call_new :: "str \<Rightarrow> call" where
  "call_new t = \<lparr>call_task = t, call_vars = [], call_silent = False, call_indirect = False\<rparr>"

end
