(* ===== verification/AstOps.thy ===== *)
theory AstOps
  imports Ast
begin

text \<open>
  The operations of the syntax tree that stay within one struct: \<open>Vars\<close> (\<open>ast/vars.rs\<close>),
  \<open>Glob\<close> (\<open>ast/glob.rs\<close>), the names of a task and the wildcard match of a call against them
  (\<open>ast/task.rs\<close>), platform selectors (\<open>ast/platforms.rs\<close>, \<open>goext.rs\<close>), required
  variables (\<open>requires.rs\<close>) and preconditions (\<open>precondition.rs\<close>).
\<close>

section \<open>Vars\<close>

definition vars_from_elements :: "(str \<times> var) list \<Rightarrow> vars" where
  "vars_from_elements els = foldl (\<lambda>m (k, v). im_insert k v m) [] els"

definition vars_set_dialect :: "dialect \<Rightarrow> vars \<Rightarrow> vars" where
  "vars_set_dialect d m = map (\<lambda>(k, v). (k, v\<lparr>v_dialect := d\<rparr>)) m"

definition to_cache_map :: "vars \<Rightarrow> (str, yaml) index_map" where
  "to_cache_map m = foldl (\<lambda>acc (k, v).
     (case v_sh v of
        Some sh \<Rightarrow> if sh \<noteq> [] then acc
                   else im_insert k (case (if v_live v \<noteq> None then v_live v else v_value v) of
                                       Some x \<Rightarrow> x | None \<Rightarrow> Null) acc
      | None \<Rightarrow> im_insert k (case (if v_live v \<noteq> None then v_live v else v_value v) of
                               Some x \<Rightarrow> x | None \<Rightarrow> Null) acc)) [] m"

definition merged_var :: "include_decl option \<Rightarrow> var \<Rightarrow> var" where
  "merged_var inc v = (case inc of
     Some i \<Rightarrow> if i_advanced_import i then v\<lparr>v_dir := i_dir i\<rparr> else v
   | None \<Rightarrow> v)"

definition vars_merge :: "vars \<Rightarrow> vars \<Rightarrow> include_decl option \<Rightarrow> vars" where
  "vars_merge self other inc = foldl (\<lambda>m (k, v). im_insert k (merged_var inc v) m) self other"

definition reverse_merge :: "vars \<Rightarrow> vars \<Rightarrow> include_decl option \<Rightarrow> vars" where
  "reverse_merge self other inc =
     (let new_om = foldl (\<lambda>m (k, v). im_insert k (merged_var inc v) m) [] other
      in foldl (\<lambda>m (k, v). im_insert k v m) new_om self)"

definition var_from_string :: "str \<Rightarrow> var" where
  "var_from_string s = default_var\<lparr>v_value := Some (String s)\<rparr>"

definition var_from_bool :: "bool \<Rightarrow> var" where
  "var_from_bool b = default_var\<lparr>v_value := Some (Bool b)\<rparr>"

definition var_from_string_list :: "str list \<Rightarrow> var" where
  "var_from_string_list vs = default_var\<lparr>v_value := Some (Sequence (map String vs))\<rparr>"

section \<open>Caches and includes\<close>

definition caches_set_dialect :: "dialect \<Rightarrow> (str, cache) index_map \<Rightarrow> (str, cache) index_map" where
  "caches_set_dialect d m = map (\<lambda>(k, c). (k, c\<lparr>ca_dialect := d\<rparr>)) m"

definition includes_set_dialect :: "dialect \<Rightarrow> includes_map \<Rightarrow> includes_map" where
  "includes_set_dialect d m =
     map (\<lambda>(k, i). (k, i\<lparr>i_vars := map_option (vars_set_dialect d) (i_vars i)\<rparr>)) m"

section \<open>Globs\<close>

definition is_reference :: "glob \<Rightarrow> bool" where
  "is_reference g = (g_from g \<noteq> [] \<or> g_task g \<noteq> [])"

definition has_wildcards :: "glob \<Rightarrow> bool" where
  "has_wildcards g = list_ex (\<lambda>c. c \<in> {CHR ''*'', CHR ''?'', CHR ''[''}) (g_glob g)"

definition is_named :: "glob \<Rightarrow> bool" where
  "is_named g = (\<not> g_negate g \<and> \<not> g_folded g \<and> \<not> is_reference g
     \<and> (g_fingerprint g \<noteq> [] \<or> \<not> has_wildcards g))"

definition output_is_set :: "output_style \<Rightarrow> bool" where
  "output_is_set o' = (o_name o' \<noteq> [])"

definition output_group_is_set :: "output_group \<Rightarrow> bool" where
  "output_group_is_set g = (og_begin g \<noteq> [] \<or> og_end g \<noteq> [])"

section \<open>The names of a task\<close>

definition task_name :: "task \<Rightarrow> str" where
  "task_name t = (if t_label t \<noteq> [] then t_label t
                  else if t_full_name t \<noteq> [] then t_full_name t else t_task t)"

definition local_name :: "task \<Rightarrow> str" where
  "local_name t =
     (let name = (if t_full_name t = [] then t_task t else t_full_name t);
          name = (case strip_prefix (t_namespace t) name of Some r \<Rightarrow> r | None \<Rightarrow> name)
      in (case strip_prefix '':'' name of Some r \<Rightarrow> r | None \<Rightarrow> name))"

definition is_silent :: "task \<Rightarrow> bool" where
  "is_silent t = (t_silent t = Some True)"

definition compute_dir :: "task \<Rightarrow> str" where
  "compute_dir t = join_dirs (t_dirs t)"

text \<open>
  The middle segments: each \<open>*\<close> takes everything up to the rightmost occurrence of the next
  literal in the remaining input (an empty literal is found at once).
\<close>

fun wildcard_middle :: "str list \<Rightarrow> str \<Rightarrow> str list \<Rightarrow> (str list \<times> str) option" where
  "wildcard_middle [] rest caps = Some (caps, rest)"
| "wildcard_middle (sep # seps) rest caps =
     (case (if sep = [] then Some 0 else rfind sep rest) of
        None \<Rightarrow> None
      | Some idx \<Rightarrow> wildcard_middle seps (drop (idx + length sep) rest) (caps @ [take idx rest]))"

definition wildcard_captures :: "str \<Rightarrow> str \<Rightarrow> str list option" where
  "wildcard_captures pattern name =
     (let segments = split_on CHR ''*'' pattern
      in if length segments = 1 then (if pattern = name then Some [] else None)
         else if \<not> starts_with name (hd segments) then None
         else
           (case wildcard_middle (butlast (tl segments)) (drop (length (hd segments)) name) [] of
              None \<Rightarrow> None
            | Some (caps, rest) \<Rightarrow>
                if \<not> ends_with rest (last segments) then None
                else Some (caps @ [take (length rest - length (last segments)) rest])))"

definition count_stars :: "str \<Rightarrow> nat" where
  "count_stars p = length (filter (\<lambda>c. c = CHR ''*'') p)"

fun wildcard_match_names :: "str list \<Rightarrow> str \<Rightarrow> bool \<times> str list" where
  "wildcard_match_names [] name = (False, [])"
| "wildcard_match_names (n # ns) name =
     (case wildcard_captures n name of
        None \<Rightarrow> wildcard_match_names ns name
      | Some ws \<Rightarrow> if length ws \<noteq> count_stars n then wildcard_match_names ns name else (True, ws))"

definition wildcard_match :: "task \<Rightarrow> str \<Rightarrow> bool \<times> str list" where
  "wildcard_match t name = wildcard_match_names (t_task t # t_aliases t) name"

section \<open>Platforms\<close>

definition KNOWN_OS :: "str list" where
  "KNOWN_OS = [''aix'', ''android'', ''darwin'', ''dragonfly'', ''freebsd'', ''hurd'', ''illumos'',
     ''ios'', ''js'', ''linux'', ''nacl'', ''netbsd'', ''openbsd'', ''plan9'', ''solaris'',
     ''windows'', ''zos'', ''__test__'']"

definition KNOWN_ARCH :: "str list" where
  "KNOWN_ARCH = [''386'', ''amd64'', ''amd64p32'', ''arm'', ''armbe'', ''arm64'', ''arm64be'',
     ''loong64'', ''mips'', ''mipsle'', ''mips64'', ''mips64le'', ''mips64p32'', ''mips64p32le'',
     ''ppc'', ''ppc64'', ''ppc64le'', ''riscv'', ''riscv64'', ''s390'', ''s390x'', ''sparc'',
     ''sparc64'', ''wasm'']"

definition is_known_os :: "str \<Rightarrow> bool" where
  "is_known_os s = (s \<in> set KNOWN_OS)"

definition is_known_arch :: "str \<Rightarrow> bool" where
  "is_known_arch s = (s \<in> set KNOWN_ARCH)"

datatype platform_error = ErrInvalidPlatform str

definition parse_os_or_arch :: "str \<Rightarrow> platform \<Rightarrow> (str, platform) result" where
  "parse_os_or_arch s p =
     (if s = [] then Inl ''task: Blank OS/Arch value provided''
      else if is_known_os s then Inr (p\<lparr>p_os := s\<rparr>)
      else if is_known_arch s then Inr (p\<lparr>p_arch := s\<rparr>)
      else Inl (''task: Invalid OS/Arch value provided ('' @ s @ '')''))"

definition parse_arch :: "str \<Rightarrow> platform \<Rightarrow> (str, platform) result" where
  "parse_arch s p =
     (if s = [] then Inl ''task: Blank Arch value provided''
      else if p_arch p \<noteq> [] then Inl ''task: Multiple Arch values provided''
      else if is_known_arch s then Inr (p\<lparr>p_arch := s\<rparr>)
      else Inl (''task: Invalid Arch value provided ('' @ s @ '')''))"

definition parse_platform :: "platform \<Rightarrow> str \<Rightarrow> (platform_error, platform) result" where
  "parse_platform self input =
     (let split_values = split_on CHR ''/'' input
      in if length split_values > 2 then Inl (ErrInvalidPlatform input)
         else case parse_os_or_arch (hd split_values) self of
           Inl _ \<Rightarrow> Inl (ErrInvalidPlatform input)
         | Inr p \<Rightarrow>
             if length split_values > 1
             then (case parse_arch (split_values ! 1) p of
                     Inl _ \<Rightarrow> Inl (ErrInvalidPlatform input)
                   | Inr q \<Rightarrow> Inr q)
             else Inr p)"

section \<open>Required variables\<close>

record missing_var =
  mv_name :: str
  mv_allowed_values :: "str list"

record not_allowed_var =
  na_name :: str
  na_value :: str
  na_enum_values :: "str list"

datatype requires_error =
    MissingVars str "missing_var list"
  | NotAllowedVars str "not_allowed_var list"

definition format_list :: "str list \<Rightarrow> str" where
  "format_list values = ''['' @ str_join '' '' values @ '']''"

definition missing_var_display :: "missing_var \<Rightarrow> str" where
  "missing_var_display m =
     (if mv_allowed_values m = [] then mv_name m
      else mv_name m @ '' (allowed values: '' @ format_list (mv_allowed_values m) @ '')'')"

definition var_present :: "task \<Rightarrow> str \<Rightarrow> bool" where
  "var_present t n = (case t_vars t of None \<Rightarrow> False | Some vs \<Rightarrow> im_get vs n \<noteq> None)"

definition missing_required_vars :: "task \<Rightarrow> missing_var list" where
  "missing_required_vars t = (case t_requires t of
     None \<Rightarrow> []
   | Some rs \<Rightarrow> map (\<lambda>v. \<lparr>mv_name = vv_name v, mv_allowed_values = vv_enum_values v\<rparr>)
                  (filter (\<lambda>v. \<not> var_present t (vv_name v)) rs))"

definition check_required_vars_set :: "task \<Rightarrow> (requires_error, unit) result" where
  "check_required_vars_set t =
     (let missing = missing_required_vars t
      in if missing = [] then Inr () else Inl (MissingVars (task_name t) missing))"

text \<open>\<open>templater::PENDING_CHECKSUM\<close>, the marker of a checksum not yet computed.\<close>

definition PENDING_CHECKSUM :: str where
  "PENDING_CHECKSUM = CHR 0x1A # ''CHECKSUM'' @ [CHR 0x1A]"

definition string_value :: "task \<Rightarrow> vars_with_validation \<Rightarrow> str option" where
  "string_value t r = (case t_vars t of
     None \<Rightarrow> None
   | Some vs \<Rightarrow> (case im_get vs (vv_name r) of
        None \<Rightarrow> None
      | Some v \<Rightarrow> (case v_value v of
           Some (String s) \<Rightarrow> if s \<noteq> PENDING_CHECKSUM then Some s else None
         | _ \<Rightarrow> None)))"

fun not_allowed_vars :: "task \<Rightarrow> vars_with_validation list \<Rightarrow> not_allowed_var list" where
  "not_allowed_vars t [] = []"
| "not_allowed_vars t (r # rs) = (case string_value t r of
     None \<Rightarrow> not_allowed_vars t rs
   | Some value \<Rightarrow>
       if vv_enum_values r \<noteq> [] \<and> value \<notin> set (vv_enum_values r)
       then \<lparr>na_name = vv_name r, na_value = value, na_enum_values = vv_enum_values r\<rparr>
              # not_allowed_vars t rs
       else not_allowed_vars t rs)"

definition check_allowed_values :: "task \<Rightarrow> (requires_error, unit) result" where
  "check_allowed_values t = (case t_requires t of
     None \<Rightarrow> Inr ()
   | Some rs \<Rightarrow>
       if rs = [] then Inr ()
       else let na = not_allowed_vars t rs
            in if na = [] then Inr () else Inl (NotAllowedVars (task_name t) na))"

section \<open>Preconditions\<close>

datatype precondition_error = NotMet

text \<open>
  \<open>check\<close>: the commands run in order through \<open>run_command\<close> (given the command, the
  directory and the environment it reports success); the first failure writes its message and
  stops. The second component is what was logged.
\<close>

fun check_preconditions ::
  "(str \<Rightarrow> str \<Rightarrow> (str \<times> str) list \<Rightarrow> bool) \<Rightarrow> str \<Rightarrow> (str \<times> str) list
    \<Rightarrow> precondition list \<Rightarrow> (precondition_error, bool) result \<times> str list" where
  "check_preconditions run_command dir env [] = (Inr True, [])"
| "check_preconditions run_command dir env (p # ps) =
     (if \<not> run_command (pc_sh p) dir env then (Inl NotMet, [''task: '' @ pc_msg p @ [CHR 0x0A]])
      else check_preconditions run_command dir env ps)"

definition split_env :: "str list option \<Rightarrow> (str \<times> str) list" where
  "split_env l = (case l of
     None \<Rightarrow> []
   | Some es \<Rightarrow> map (\<lambda>e. case split_once CHR ''='' e of Some kv \<Rightarrow> kv | None \<Rightarrow> (e, [])) es)"

definition precondition_check ::
  "(str \<Rightarrow> str \<Rightarrow> (str \<times> str) list \<Rightarrow> bool) \<Rightarrow> str list option \<Rightarrow> task
    \<Rightarrow> (precondition_error, bool) result \<times> str list" where
  "precondition_check run_command env t =
     check_preconditions run_command (compute_dir t) (split_env env) (t_preconditions t)"

section \<open>Lemmas\<close>

lemma vars_merge_insert_all:
  "vars_merge self other inc = im.insert_all (map (\<lambda>(k, v). (k, merged_var inc v)) other) self"
  unfolding vars_merge_def im.insert_all_def foldl_conv_fold
  by (induction other arbitrary: self) (auto simp: case_prod_beta)

lemma reverse_merge_insert_all:
  "reverse_merge self other inc = im.insert_all self (vars_merge [] other inc)"
proof -
  have "foldl (\<lambda>m (k, v). im_insert k v m) m ps = im.insert_all ps m" for m and ps :: vars
    by (induction ps arbitrary: m) (auto simp: im.insert_all_def)
  then show ?thesis unfolding reverse_merge_def vars_merge_def Let_def by simp
qed

lemma map_fst_map_snd [simp]: "map (fst \<circ> (\<lambda>(k, v). (k, f v))) m = map fst m"
  by (induction m) auto

lemma map_of_map_snd: "map_of (map (\<lambda>(k, v). (k, f v)) m) k = map_option f (map_of m k)"
  by (induction m) auto

lemma im_ok_vars_merge: "im_ok self \<Longrightarrow> im_ok (vars_merge self other inc)"
  by (simp add: vars_merge_insert_all im.ok_insert_all)

lemma im_get_vars_merge:
  assumes "im_ok other"
  shows "im_get (vars_merge self other inc) k =
    (case im_get other k of Some v \<Rightarrow> Some (merged_var inc v) | None \<Rightarrow> im_get self k)"
  using assms im.get_insert_all [of "map (\<lambda>(k, v). (k, merged_var inc v)) other" self k]
  by (cases "map_of other k") (simp_all add: vars_merge_insert_all im_ok_def map_of_map_snd im_get_def)

lemma im_keys_vars_merge:
  assumes "im_ok other"
  shows "im_keys (vars_merge self other inc) =
    im_keys self @ filter (\<lambda>k. k \<notin> set (im_keys self)) (im_keys other)"
  using assms im.keys_insert_all [of "map (\<lambda>(k, v). (k, merged_var inc v)) other" self]
  by (simp add: vars_merge_insert_all im_ok_def im_keys_def)

lemma im_get_Nil [simp]: "im_get [] k = None"
  by (simp add: im_get_def)

lemma im_keys_Nil [simp]: "im_keys [] = []"
  by (simp add: im_keys_def)

subsection \<open>Wildcards\<close>

text \<open>The name a list of captures stands for: the literals of the pattern around them.\<close>

fun interleave :: "str list \<Rightarrow> str list \<Rightarrow> str" where
  "interleave (s # ss) (c # cs) = s @ c @ interleave ss cs"
| "interleave (s # ss) [] = s @ interleave ss []"
| "interleave [] cs = []"

lemma split_on_length: "length (split_on c s) = Suc (length (filter (\<lambda>x. x = c) s))"
proof (induction s)
  case (Cons x xs)
  obtain y ys where "split_on c xs = y # ys" by (metis list.exhaust split_on_not_Nil)
  with Cons show ?case by simp
qed simp

lemma rfind_split:
  assumes "rfind p s = Some i"
  shows "s = take i s @ p @ drop (i + length p) s"
  using rfind_SomeD [OF assms] by auto

lemma wildcard_middle_sound:
  assumes "wildcard_middle seps rest caps = Some (caps', rest')"
  shows "\<exists>new. caps' = caps @ new \<and> length new = length seps
    \<and> rest = concat (map (\<lambda>(c, s). c @ s) (zip new seps)) @ rest'"
  using assms
proof (induction seps arbitrary: rest caps)
  case (Cons sep seps)
  then obtain idx where idx: "(if sep = [] then Some 0 else rfind sep rest) = Some idx"
    and w: "wildcard_middle seps (drop (idx + length sep) rest) (caps @ [take idx rest])
            = Some (caps', rest')"
    by (auto split: option.splits)
  have rest: "rest = take idx rest @ sep @ drop (idx + length sep) rest"
    using idx by (auto split: if_splits dest: rfind_split)
  from Cons.IH [OF w] obtain new where
    new: "caps' = (caps @ [take idx rest]) @ new" "length new = length seps"
      "drop (idx + length sep) rest = concat (map (\<lambda>(c, s). c @ s) (zip new seps)) @ rest'"
    by blast
  show ?case
    by (rule exI [of _ "take idx rest # new"]) (use new rest in auto)
qed simp

lemma interleave_zip:
  assumes "length new = length mid"
  shows "interleave (f # mid @ [l]) (new @ [c]) =
    f @ concat (map (\<lambda>(c, s). c @ s) (zip new mid)) @ c @ l"
  using assms by (induction new mid arbitrary: f rule: list_induct2) auto

lemma wildcard_captures_sound:
  assumes "wildcard_captures pattern name = Some caps"
  shows "length caps = count_stars pattern \<and> interleave (split_on CHR ''*'' pattern) caps = name"
proof (cases "length (split_on CHR ''*'' pattern) = 1")
  case True
  then have "split_on CHR ''*'' pattern = [pattern]"
    by (metis One_nat_def Suc_length_conv length_0_conv str_join.simps(2) str_join_split_on)
  with assms True show ?thesis
    using split_on_length [of "CHR ''*''" pattern]
    by (auto simp: wildcard_captures_def count_stars_def Let_def split: if_splits)
next
  case False
  let ?segs = "split_on CHR ''*'' pattern"
  have len: "length ?segs \<ge> 2" using False by (cases ?segs; cases "tl ?segs") auto
  then obtain f mid l where segs: "?segs = f # mid @ [l]"
    by (metis One_nat_def Suc_1 Suc_le_length_iff append_butlast_last_id list.distinct(1))
  from assms False obtain caps' rest where m: "starts_with name f"
    "wildcard_middle mid (drop (length f) name) [] = Some (caps', rest)" "ends_with rest l"
    "caps = caps' @ [take (length rest - length l) rest]"
    by (auto simp: wildcard_captures_def Let_def segs split: if_splits option.splits)
  from wildcard_middle_sound [OF m(2)] have w: "length caps' = length mid"
    "drop (length f) name = concat (map (\<lambda>(c, s). c @ s) (zip caps' mid)) @ rest"
    by auto
  have "name = f @ drop (length f) name"
    using m(1) by (metis append_take_drop_id starts_with_def)
  moreover have "rest = take (length rest - length l) rest @ l"
    using m(3) by (metis append_take_drop_id ends_with_def)
  ultimately have "interleave ?segs caps = name"
    unfolding segs m(4) interleave_zip [OF w(1)] using w(2) by (metis append.assoc)
  moreover have "length caps = count_stars pattern"
    using split_on_length [of "CHR ''*''" pattern] w(1) m(4) segs by (simp add: count_stars_def)
  ultimately show ?thesis by simp
qed

lemma wildcard_single_star:
  assumes "CHR ''*'' \<notin> set a" "CHR ''*'' \<notin> set b"
  shows "wildcard_captures (a @ ''*'' @ b) name =
    (if \<exists>c. name = a @ c @ b then Some [take (length name - length a - length b) (drop (length a) name)] else None)"
proof -
  have segs: "split_on CHR ''*'' (a @ ''*'' @ b) = [a, b]"
    using assms by (simp add: split_on_append split_on_single)
  have iff: "(\<exists>c. name = a @ c @ b) \<longleftrightarrow> starts_with name a \<and> ends_with (drop (length a) name) b"
    unfolding starts_with_iff ends_with_iff by auto
  show ?thesis
    unfolding wildcard_captures_def Let_def segs iff by simp
qed

lemma wildcard_match_names_sound:
  "wildcard_match_names ns name = (True, ws) \<Longrightarrow>
     \<exists>n\<in>set ns. interleave (split_on CHR ''*'' n) ws = name \<and> length ws = count_stars n"
  by (induction ns) (auto split: option.splits if_splits dest: wildcard_captures_sound)

subsection \<open>Platforms\<close>

lemma known_os_arch_disjoint: "is_known_os s \<Longrightarrow> \<not> is_known_arch s"
  by (auto simp: is_known_os_def is_known_arch_def KNOWN_OS_def KNOWN_ARCH_def)

lemma known_no_slash: "is_known_os s \<or> is_known_arch s \<Longrightarrow> CHR ''/'' \<notin> set s \<and> s \<noteq> []"
  by (auto simp: is_known_os_def is_known_arch_def KNOWN_OS_def KNOWN_ARCH_def)

lemma parse_os_or_arch_Inr:
  "parse_os_or_arch s p = Inr q \<longleftrightarrow>
     is_known_os s \<and> q = p\<lparr>p_os := s\<rparr> \<or> is_known_arch s \<and> q = p\<lparr>p_arch := s\<rparr>"
  using known_no_slash [of s] known_os_arch_disjoint [of s] by (auto simp: parse_os_or_arch_def)

lemma parse_arch_Inr:
  "parse_arch s p = Inr q \<longleftrightarrow> p_arch p = [] \<and> is_known_arch s \<and> q = p\<lparr>p_arch := s\<rparr>"
  using known_no_slash [of s] by (auto simp: parse_arch_def)

lemma vars_merge_facts:
  assumes "im_ok self" "im_ok other"
  shows "im_get (vars_merge self other inc) k =
      (case im_get other k of Some v \<Rightarrow> Some (merged_var inc v) | None \<Rightarrow> im_get self k)"
    and "im_keys (vars_merge self other inc) =
      im_keys self @ filter (\<lambda>k. k \<notin> set (im_keys self)) (im_keys other)"
    and "im_get (reverse_merge self other inc) k =
      (case im_get self k of Some v \<Rightarrow> Some v | None \<Rightarrow> map_option (merged_var inc) (im_get other k))"
    and "im_keys (reverse_merge self other inc) =
      im_keys other @ filter (\<lambda>k. k \<notin> set (im_keys other)) (im_keys self)"
proof -
  have d: "distinct (map fst self)" using assms(1) by (simp add: im_ok_def)
  have k: "im_keys (vars_merge [] other inc) = im_keys other"
    by (simp add: im_keys_vars_merge [OF assms(2)])
  show "im_get (reverse_merge self other inc) k =
      (case im_get self k of Some v \<Rightarrow> Some v | None \<Rightarrow> map_option (merged_var inc) (im_get other k))"
    using im.get_insert_all [OF d] im_get_vars_merge [OF assms(2), of "[]"]
    by (simp add: reverse_merge_insert_all im_get_def [of self] split: option.split)
  show "im_keys (reverse_merge self other inc) =
      im_keys other @ filter (\<lambda>k. k \<notin> set (im_keys other)) (im_keys self)"
    using im.keys_insert_all [OF d] by (simp add: reverse_merge_insert_all k im_keys_def [of self])
qed (simp_all add: im_get_vars_merge im_keys_vars_merge assms)

section \<open>Properties\<close>

text \<open>
  C25: merging variables. \<open>merge\<close> lets the merged-in map win and appends its new keys in their
  order after the existing ones (rebasing \<open>dir\<close> on an advanced import); \<open>reverse_merge\<close> lets
  the existing map win and puts the merged-in keys first.
\<close>

theorem vars_merge_laws:
  assumes "im_ok self" "im_ok other"
  shows "im_get (vars_merge self other inc) k =
      (case im_get other k of Some v \<Rightarrow> Some (merged_var inc v) | None \<Rightarrow> im_get self k)
   \<and> im_keys (vars_merge self other inc) =
      im_keys self @ filter (\<lambda>k. k \<notin> set (im_keys self)) (im_keys other)
   \<and> im_get (reverse_merge self other inc) k =
      (case im_get self k of Some v \<Rightarrow> Some v | None \<Rightarrow> map_option (merged_var inc) (im_get other k))
   \<and> im_keys (reverse_merge self other inc) =
      im_keys other @ filter (\<lambda>k. k \<notin> set (im_keys other)) (im_keys self)"
  using vars_merge_facts [OF assms] by blast

theorem vars_merge_laws_witness:
  "im_keys (vars_merge [(''A'', default_var), (''B'', default_var)]
      [(''B'', var_from_string ''x''), (''C'', default_var)] None) = [''A'', ''B'', ''C'']
   \<and> im_get (reverse_merge [(''B'', default_var)] [(''B'', var_from_string ''x'')] None) ''B''
      = Some default_var"
  using vars_merge_laws [of "[(''A'', default_var), (''B'', default_var)]"
      "[(''B'', var_from_string ''x''), (''C'', default_var)]" None]
    vars_merge_laws [of "[(''B'', default_var)]" "[(''B'', var_from_string ''x'')]" None "''B''"]
  by (simp add: im_ok_def im_keys_def im_get_def)

text \<open>
  C24: a wildcard match is sound. Whatever name or alias a call matches, the captured values
  put back in place of its stars rebuild the called name, one capture per star; and a pattern
  with one star matches every name that has its prefix and suffix without overlap.
\<close>

theorem wildcard_match_rebuilds_name:
  "(wildcard_match t name = (True, ws) \<longrightarrow>
      (\<exists>n\<in>set (t_task t # t_aliases t).
         interleave (split_on CHR ''*'' n) ws = name \<and> length ws = count_stars n))
   \<and> (CHR ''*'' \<notin> set a \<and> CHR ''*'' \<notin> set b \<longrightarrow>
        wildcard_captures (a @ ''*'' @ b) (a @ c @ b) = Some [c])"
  using wildcard_match_names_sound [of "t_task t # t_aliases t" name ws]
    wildcard_single_star [of a b "a @ c @ b"]
  unfolding wildcard_match_def by auto

theorem wildcard_match_rebuilds_name_witness:
  "wildcard_captures ''build:*:*'' ''build:linux:amd64'' = Some [''linux'', ''amd64'']
   \<and> (\<exists>n\<in>{''build:*:*''}. interleave (split_on CHR ''*'' n) [''linux'', ''amd64''] = ''build:linux:amd64'')
   \<and> wildcard_captures (''start:'' @ ''*'' @ []) (''start:'' @ ''web'' @ []) = Some [''web'']"
proof (intro conjI)
  let ?t = "default_task\<lparr>t_task := ''build:*:*''\<rparr>"
  have ok: "wildcard_match ?t ''build:linux:amd64'' = (True, [''linux'', ''amd64''])"
    unfolding default_task_def by code_simp
  show "wildcard_captures ''build:*:*'' ''build:linux:amd64'' = Some [''linux'', ''amd64'']" by code_simp
  show "\<exists>n\<in>{''build:*:*''}. interleave (split_on CHR ''*'' n) [''linux'', ''amd64''] = ''build:linux:amd64''"
    using wildcard_match_rebuilds_name [of ?t "''build:linux:amd64''" "[''linux'', ''amd64'']" "[]" "[]" "[]"] ok
    by (simp add: default_task_def)
  show "wildcard_captures (''start:'' @ ''*'' @ []) (''start:'' @ ''web'' @ []) = Some [''web'']"
    using wildcard_match_rebuilds_name [of ?t "[]" "[]" "''start:''" "[]" "''web''"] by simp
qed

text \<open>
  With more stars the match is not complete. The rightmost occurrence is taken without
  ever trying an earlier one, so a name that does fill the pattern is refused.
\<close>

theorem wildcard_captures_no_backtracking:
  "interleave (split_on CHR ''*'' ''*-*-*'') [''a'', ''b'', ''c''] = ''a-b-c''
   \<and> wildcard_captures ''*-*-*'' ''a-b-c'' = None
   \<and> interleave (split_on CHR ''*'' ''*x*x'') [''a'', []] = ''axx''
   \<and> wildcard_captures ''*x*x'' ''axx'' = None"
  by (intro conjI; code_simp)

text \<open>
  C26: the platform selectors that parse are exactly a known operating system, a known
  architecture, and a known operating system and architecture joined by a slash.
\<close>

theorem parse_platform_iff:
  "parse_platform default_platform s = Inr p \<longleftrightarrow>
     is_known_os s \<and> p = \<lparr>p_os = s, p_arch = []\<rparr>
   \<or> is_known_arch s \<and> p = \<lparr>p_os = [], p_arch = s\<rparr>
   \<or> (\<exists>os' arch. s = os' @ ''/'' @ arch \<and> is_known_os os' \<and> is_known_arch arch
        \<and> p = \<lparr>p_os = os', p_arch = arch\<rparr>)"
  (is "_ \<longleftrightarrow> ?R")
proof -
  consider (one) "CHR ''/'' \<notin> set s"
    | (two) a b where "s = a @ ''/'' @ b" "CHR ''/'' \<notin> set a" "CHR ''/'' \<notin> set b"
    | (more) a b c where "s = a @ ''/'' @ b @ ''/'' @ c" "CHR ''/'' \<notin> set a" "CHR ''/'' \<notin> set b"
    using split_list_first [of "CHR ''/''"] by (metis append_Cons append_Nil)
  then show ?thesis
  proof cases
    case one
    then have "parse_platform default_platform s = Inr p \<longleftrightarrow>
        parse_os_or_arch s default_platform = Inr p"
      by (auto simp: parse_platform_def split_on_single Let_def split: sum.splits)
    with one show ?thesis
      by (auto simp: parse_os_or_arch_Inr default_platform_def)
  next
    case (two a b)
    then have sp: "split_on CHR ''/'' s = [a, b]" by (simp add: split_on_append split_on_single)
    have "parse_platform default_platform s = Inr p \<longleftrightarrow>
        (\<exists>q. parse_os_or_arch a default_platform = Inr q \<and> parse_arch b q = Inr p)"
      by (auto simp: parse_platform_def sp Let_def split: sum.splits)
    also have "\<dots> \<longleftrightarrow> is_known_os a \<and> is_known_arch b \<and> p = \<lparr>p_os = a, p_arch = b\<rparr>"
      using known_no_slash [of a]
      by (auto simp: parse_os_or_arch_Inr parse_arch_Inr default_platform_def)
    also have "\<dots> \<longleftrightarrow> ?R"
    proof
      assume R: ?R
      have "\<not> is_known_os s" "\<not> is_known_arch s" using known_no_slash [of s] two(1) by auto
      with R obtain a' b' where ab: "s = a' @ ''/'' @ b'" "is_known_os a'" "is_known_arch b'"
        "p = \<lparr>p_os = a', p_arch = b'\<rparr>" by blast
      then have "split_on CHR ''/'' s = [a', b']"
        using known_no_slash by (simp add: split_on_append split_on_single)
      with sp ab show "is_known_os a \<and> is_known_arch b \<and> p = \<lparr>p_os = a, p_arch = b\<rparr>" by simp
    qed (use two(1) in blast)
    finally show ?thesis .
  next
    case (more a b c)
    then have "length (split_on CHR ''/'' s) > 2"
      using split_on_length [of "CHR ''/''" s] by simp
    then have "parse_platform default_platform s = Inl (ErrInvalidPlatform s)"
      by (simp add: parse_platform_def Let_def)
    moreover have "\<not> ?R"
    proof
      assume ?R
      then have "length (split_on CHR ''/'' s) \<le> 2"
        using known_no_slash by (auto simp: split_on_append split_on_single)
      with \<open>length (split_on CHR ''/'' s) > 2\<close> show False by simp
    qed
    ultimately show ?thesis by simp
  qed
qed

text \<open>
  C27: required variables. The check passes exactly when every required name is set; and the
  enum check passes exactly when each required string that is set and known lies in its enum.
\<close>

theorem requires_checks:
  "(check_required_vars_set t = Inr () \<longleftrightarrow>
      (\<forall>rs. t_requires t = Some rs \<longrightarrow> (\<forall>r\<in>set rs. var_present t (vv_name r))))
   \<and> (check_allowed_values t = Inr () \<longleftrightarrow>
      (\<forall>rs. t_requires t = Some rs \<longrightarrow>
        (\<forall>r\<in>set rs. \<forall>s. string_value t r = Some s \<longrightarrow> vv_enum_values r = [] \<or> s \<in> set (vv_enum_values r))))"
proof -
  have "not_allowed_vars t rs = [] \<longleftrightarrow>
      (\<forall>r\<in>set rs. \<forall>s. string_value t r = Some s \<longrightarrow> vv_enum_values r = [] \<or> s \<in> set (vv_enum_values r))" for rs
    by (induction rs) (auto split: option.splits)
  then show ?thesis
    by (auto simp: check_required_vars_set_def missing_required_vars_def check_allowed_values_def
        Let_def filter_empty_conv split: option.splits)
qed

theorem requires_checks_witness:
  "check_required_vars_set (default_task\<lparr>t_requires := Some [\<lparr>vv_name = ''ENV'', vv_enum_values = [''dev'']\<rparr>],
      t_vars := Some [(''ENV'', var_from_string ''dev'')]\<rparr>) = Inr ()
   \<and> check_allowed_values (default_task\<lparr>t_requires := Some [\<lparr>vv_name = ''ENV'', vv_enum_values = [''dev'']\<rparr>],
      t_vars := Some [(''ENV'', var_from_string ''prod'')]\<rparr>) \<noteq> Inr ()"
  using requires_checks [of "default_task\<lparr>t_requires := Some [\<lparr>vv_name = ''ENV'', vv_enum_values = [''dev'']\<rparr>],
      t_vars := Some [(''ENV'', var_from_string ''dev'')]\<rparr>"]
    requires_checks [of "default_task\<lparr>t_requires := Some [\<lparr>vv_name = ''ENV'', vv_enum_values = [''dev'']\<rparr>],
      t_vars := Some [(''ENV'', var_from_string ''prod'')]\<rparr>"]
  by (simp add: var_present_def im_get_def string_value_def var_from_string_def PENDING_CHECKSUM_def default_var_def)

end
