(* ===== verification/Decode.thy ===== *)
theory Decode
  imports AstOps
begin

text \<open>
  Reading the syntax tree from a YAML value: the \<open>Deserialize\<close> implementation of every node
  (\<open>ast/*.rs\<close>), with its polymorphic shapes, its defaults and its errors. The readers are
  stated over the primitives of \<open>Yaml\<close>; reading a \<open>Value\<close> from a \<open>Value\<close> is the
  identity. A struct with several faulty fields reports the first one in field order.

  \<open>wf_taskfile\<close> is what every reader promises, and what merging and compiling rely on:
  each task is stored under its own name, an entry that names a task carries no pattern, a
  command is a shell command or a call but not both, a loop has one source.
\<close>

section \<open>Leaves\<close>

definition decode_prompt :: "str list decoder" where
  "decode_prompt v = (case v of
     String s \<Rightarrow> Inr [s]
   | Sequence _ \<Rightarrow> de_vec de_string v
   | _ \<Rightarrow> Inl (TypeMessage ''prompt''))"

definition decode_precondition :: "precondition decoder" where
  "decode_precondition v = (case v of
     String c \<Rightarrow> Inr \<lparr>pc_sh = c, pc_msg = ''`'' @ c @ ''` failed''\<rparr>
   | Mapping _ \<Rightarrow>
       try_bind (de_struct [''sh'', ''msg''] False v) (\<lambda>fs.
       try_bind (field fs ''sh'' [] de_string) (\<lambda>sh.
       try_bind (field fs ''msg'' [] de_string) (\<lambda>msg.
       Inr \<lparr>pc_sh = sh, pc_msg = (if msg = [] then sh @ '' failed'' else msg)\<rparr>)))
   | _ \<Rightarrow> Inl (TypeMessage ''precondition''))"

definition decode_vars_with_validation :: "vars_with_validation decoder" where
  "decode_vars_with_validation v = (case v of
     String n \<Rightarrow> Inr \<lparr>vv_name = n, vv_enum_values = []\<rparr>
   | Mapping _ \<Rightarrow>
       try_bind (de_struct [''name'', ''enum''] False v) (\<lambda>fs.
       try_bind (field fs ''name'' [] de_string) (\<lambda>n.
       try_bind (field fs ''enum'' [] (de_vec de_string)) (\<lambda>es.
       Inr \<lparr>vv_name = n, vv_enum_values = es\<rparr>)))
   | _ \<Rightarrow> Inl (TypeMessage ''requires''))"

definition decode_requires :: "requires decoder" where
  "decode_requires v =
     try_bind (de_struct [''vars''] False v) (\<lambda>fs.
       field fs ''vars'' [] (de_vec decode_vars_with_validation))"

definition quoted :: "str \<Rightarrow> str" where
  "quoted s = CHR 0x22 # s @ [CHR 0x22]"

definition decode_platform :: "platform decoder" where
  "decode_platform v = try_bind (de_string v) (\<lambda>s.
     case parse_platform default_platform s of
       Inl (ErrInvalidPlatform p) \<Rightarrow> Inl (Message (''invalid platform '' @ quoted p))
     | Inr p \<Rightarrow> Inr p)"

definition decode_dialect :: "dialect decoder" where
  "decode_dialect v =
     (let variant = (\<lambda>t. if t = ''go'' then Inr Go else if t = ''jinja'' then Inr Jinja else Inl Serde)
      in case v of
           String s \<Rightarrow> variant s
         | Tagged t c \<Rightarrow> try_bind (variant (nobang t)) (\<lambda>d. if c = Null then Inr d else Inl Serde)
         | _ \<Rightarrow> Inl Serde)"

section \<open>Variables\<close>

definition first_key :: "(yaml \<times> yaml) list \<Rightarrow> str" where
  "first_key m = (case m of [] \<Rightarrow> ''<none>''
     | (k, _) # _ \<Rightarrow> (case as_str k of Some s \<Rightarrow> s | None \<Rightarrow> ''<none>''))"

definition decode_var :: "var decoder" where
  "decode_var v = (case v of
     Mapping m \<Rightarrow>
       (let key = first_key m
        in if key \<in> {''sh'', ''ref'', ''map''}
           then try_bind (de_struct [''sh'', ''ref'', ''map''] False v) (\<lambda>fs.
                try_bind (opt_field fs ''sh'' de_string) (\<lambda>sh.
                try_bind (opt_field fs ''ref'' de_string) (\<lambda>r.
                try_bind (opt_field fs ''map'' Inr) (\<lambda>mp.
                Inr (default_var\<lparr>v_sh := sh, v_ref := (case r of Some x \<Rightarrow> x | None \<Rightarrow> []),
                                 v_value := mp\<rparr>)))))
           else Inl (Message (quoted key @ '' is not a valid variable type. Try '' @ quoted ''sh'' @ '', ''
                  @ quoted ''ref'' @ '', '' @ quoted ''map'' @ '' or using a scalar value'')))
   | _ \<Rightarrow> Inr (default_var\<lparr>v_value := Some v\<rparr>))"

text \<open>The loop shared by the ordered maps: a string key, the decoded value, an insert.\<close>

definition decode_entries ::
  "str \<Rightarrow> (str \<Rightarrow> 'a decoder) \<Rightarrow> (yaml \<times> yaml) list \<Rightarrow> (decode_error, (str, 'a) index_map) result" where
  "decode_entries what d m = try_fold (\<lambda>(k, v) acc. case as_str k of
       None \<Rightarrow> Inl (TypeMessage what)
     | Some key \<Rightarrow> try_bind (d key v) (\<lambda>x. Inr (im_insert key x acc))) m []"

definition decode_vars :: "vars decoder" where
  "decode_vars v = (case v of
     Mapping m \<Rightarrow> decode_entries ''vars'' (\<lambda>_. decode_var) m
   | _ \<Rightarrow> Inl (TypeMessage ''vars''))"

section \<open>Loops, commands and dependencies\<close>

definition decode_matrix_row :: "matrix_row decoder" where
  "decode_matrix_row v = (case v of
     Sequence s \<Rightarrow> Inr \<lparr>mr_ref = [], mr_value = s\<rparr>
   | Mapping _ \<Rightarrow> try_bind (de_struct [''ref''] False v) (\<lambda>fs.
       try_bind (field fs ''ref'' [] de_string) (\<lambda>r. Inr \<lparr>mr_ref = r, mr_value = []\<rparr>))
   | _ \<Rightarrow> Inl (Message ''matrix values must be an array or a reference''))"

definition decode_matrix :: "matrix decoder" where
  "decode_matrix v = (case v of
     Mapping m \<Rightarrow> decode_entries ''matrix'' (\<lambda>_. decode_matrix_row) m
   | _ \<Rightarrow> Inl (TypeMessage ''matrix''))"

definition decode_for :: "for_loop decoder" where
  "decode_for v = (case v of
     String s \<Rightarrow> Inr (default_for\<lparr>f_from := s\<rparr>)
   | Sequence l \<Rightarrow> Inr (default_for\<lparr>f_list := l\<rparr>)
   | Mapping _ \<Rightarrow>
       try_bind (de_struct [''matrix'', ''var'', ''split'', ''as''] False v) (\<lambda>fs.
       try_bind (opt_field fs ''matrix'' decode_matrix) (\<lambda>mx.
       try_bind (field fs ''var'' [] de_string) (\<lambda>var.
       try_bind (field fs ''split'' [] de_string) (\<lambda>split.
       try_bind (field fs ''as'' [] de_string) (\<lambda>as.
       let matrix_len = (case mx of None \<Rightarrow> 0 | Some m \<Rightarrow> length m)
       in if var = [] \<and> matrix_len = 0 then Inl (Message ''invalid keys in for'')
          else if var \<noteq> [] \<and> matrix_len \<noteq> 0 then Inl (Message ''cannot use both var and matrix in for'')
          else Inr (default_for\<lparr>f_matrix := mx, f_var := var, f_split := split, f_as := as\<rparr>))))))
   | _ \<Rightarrow> Inl (TypeMessage ''for''))"

record defer_decl =
  df_cmd :: str
  df_task :: str
  df_vars :: "vars option"
  df_silent :: bool

definition decode_defer :: "defer_decl decoder" where
  "decode_defer v = (case v of
     String c \<Rightarrow> Inr \<lparr>df_cmd = c, df_task = [], df_vars = None, df_silent = False\<rparr>
   | Mapping _ \<Rightarrow>
       try_bind (de_struct [''defer'', ''task'', ''vars'', ''silent''] False v) (\<lambda>fs.
       try_bind (field fs ''defer'' [] de_string) (\<lambda>c.
       try_bind (field fs ''task'' [] de_string) (\<lambda>t.
       try_bind (opt_field fs ''vars'' decode_vars) (\<lambda>vs.
       try_bind (field fs ''silent'' False de_bool) (\<lambda>sl.
       Inr \<lparr>df_cmd = c, df_task = t, df_vars = vs, df_silent = sl\<rparr>)))))
   | _ \<Rightarrow> Inl (TypeMessage ''defer''))"

record cmd_raw =
  cr_cmd :: str
  cr_task :: str
  cr_for :: "for_loop option"
  cr_if :: str
  cr_silent :: bool
  cr_set :: "str list"
  cr_shopt :: "str list"
  cr_vars :: "vars option"
  cr_ignore_error :: bool
  cr_defer :: "defer_decl option"
  cr_platforms :: "platform list"

definition decode_cmd_raw :: "cmd_raw decoder" where
  "decode_cmd_raw v =
     try_bind (de_struct [''cmd'', ''task'', ''for'', ''if'', ''silent'', ''set'', ''shopt'', ''vars'',
                          ''ignore_error'', ''defer'', ''platforms''] False v) (\<lambda>fs.
     try_bind (field fs ''cmd'' [] de_string) (\<lambda>c.
     try_bind (field fs ''task'' [] de_string) (\<lambda>t.
     try_bind (field fs ''for'' None (de_option decode_for)) (\<lambda>fr.
     try_bind (field fs ''if'' [] de_string) (\<lambda>i.
     try_bind (field fs ''silent'' False de_bool) (\<lambda>sl.
     try_bind (field fs ''set'' [] (de_vec de_string)) (\<lambda>st.
     try_bind (field fs ''shopt'' [] (de_vec de_string)) (\<lambda>sh.
     try_bind (opt_field fs ''vars'' decode_vars) (\<lambda>vs.
     try_bind (field fs ''ignore_error'' False de_bool) (\<lambda>ie.
     try_bind (opt_field fs ''defer'' decode_defer) (\<lambda>df.
     try_bind (field fs ''platforms'' [] (de_vec decode_platform)) (\<lambda>ps.
     Inr \<lparr>cr_cmd = c, cr_task = t, cr_for = fr, cr_if = i, cr_silent = sl, cr_set = st,
          cr_shopt = sh, cr_vars = vs, cr_ignore_error = ie, cr_defer = df, cr_platforms = ps\<rparr>))))))))))))"

definition cmd_of_raw :: "cmd_raw \<Rightarrow> (decode_error, cmd) result" where
  "cmd_of_raw raw = (case cr_defer raw of
     Some d \<Rightarrow>
       if df_cmd d \<noteq> []
       then Inr (default_cmd\<lparr>c_defer := True, c_cmd := df_cmd d, c_silent := cr_silent raw\<rparr>)
       else if df_task d \<noteq> []
       then Inr (default_cmd\<lparr>c_defer := True, c_task := df_task d, c_vars := df_vars d,
                             c_silent := df_silent d\<rparr>)
       else Inr default_cmd
   | None \<Rightarrow>
       if cr_task raw \<noteq> []
       then Inr (default_cmd\<lparr>c_task := cr_task raw, c_vars := cr_vars raw, c_for := cr_for raw,
                             c_if := cr_if raw, c_silent := cr_silent raw,
                             c_ignore_error := cr_ignore_error raw\<rparr>)
       else if cr_cmd raw \<noteq> []
       then Inr (default_cmd\<lparr>c_cmd := cr_cmd raw, c_for := cr_for raw, c_if := cr_if raw,
                             c_silent := cr_silent raw, c_set := cr_set raw, c_shopt := cr_shopt raw,
                             c_ignore_error := cr_ignore_error raw, c_platforms := cr_platforms raw\<rparr>)
       else Inl (Message ''invalid keys in command''))"

definition decode_cmd :: "cmd decoder" where
  "decode_cmd v = (case v of
     String c \<Rightarrow> Inr (default_cmd\<lparr>c_cmd := c\<rparr>)
   | Mapping _ \<Rightarrow> try_bind (decode_cmd_raw v) cmd_of_raw
   | _ \<Rightarrow> Inl (TypeMessage ''command''))"

definition decode_dep :: "dep decoder" where
  "decode_dep v = (case v of
     String t \<Rightarrow> Inr (default_dep\<lparr>d_task := t\<rparr>)
   | Mapping _ \<Rightarrow>
       try_bind (de_struct [''task'', ''for'', ''vars'', ''silent'', ''fingerprint''] False v) (\<lambda>fs.
       try_bind (field fs ''task'' [] de_string) (\<lambda>t.
       try_bind (field fs ''for'' None (de_option decode_for)) (\<lambda>fr.
       try_bind (opt_field fs ''vars'' decode_vars) (\<lambda>vs.
       try_bind (field fs ''silent'' False de_bool) (\<lambda>sl.
       try_bind (field fs ''fingerprint'' None (de_option de_bool)) (\<lambda>fp.
       Inr \<lparr>d_task = t, d_for = fr, d_vars = vs, d_silent = sl, d_fingerprint = fp\<rparr>))))))
   | _ \<Rightarrow> Inl (TypeMessage ''dependency''))"

section \<open>Patterns, cache and sandbox blocks\<close>

definition glob_of_raw ::
  "str \<Rightarrow> str \<Rightarrow> str \<Rightarrow> str \<Rightarrow> str \<Rightarrow> vars option \<Rightarrow> (decode_error, glob) result" where
  "glob_of_raw ex gl fp fr t vs =
     (if t \<noteq> [] then
        (if \<not> (ex = [] \<and> gl = [] \<and> fp = [] \<and> fr = [])
         then Inl (Message ''a `task:` entry takes only `vars:`'')
         else Inr (default_glob\<lparr>g_task := t, g_vars := vs\<rparr>))
      else if vs \<noteq> None then Inl (Message ''`vars:` requires `task:`'')
      else if fr \<noteq> [] then Inr (default_glob\<lparr>g_from := fr\<rparr>)
      else if ex \<noteq> [] then Inr (default_glob\<lparr>g_glob := ex, g_negate := True, g_fingerprint := fp\<rparr>)
      else Inr (default_glob\<lparr>g_glob := gl, g_fingerprint := fp\<rparr>))"

definition decode_glob :: "glob decoder" where
  "decode_glob v = (case v of
     String g \<Rightarrow> Inr (default_glob\<lparr>g_glob := g\<rparr>)
   | Mapping _ \<Rightarrow>
       try_bind (de_struct [''exclude'', ''glob'', ''fingerprint'', ''from'', ''task'', ''vars''] False v) (\<lambda>fs.
       try_bind (field fs ''exclude'' [] de_string) (\<lambda>ex.
       try_bind (field fs ''glob'' [] de_string) (\<lambda>gl.
       try_bind (field fs ''fingerprint'' [] de_string) (\<lambda>fp.
       try_bind (field fs ''from'' [] de_string) (\<lambda>fr.
       try_bind (field fs ''task'' [] de_string) (\<lambda>t.
       try_bind (opt_field fs ''vars'' decode_vars) (\<lambda>vs.
       glob_of_raw ex gl fp fr t vs)))))))
   | _ \<Rightarrow> Inl (TypeMessage ''glob''))"

definition value_as_string :: "num_fmt \<Rightarrow> yaml \<Rightarrow> str" where
  "value_as_string f v = (case v of
     String s \<Rightarrow> s
   | Bool b \<Rightarrow> if b then ''true'' else ''false''
   | Number n \<Rightarrow> number_display f n
   | _ \<Rightarrow> [])"

definition cache_entry :: "num_fmt \<Rightarrow> yaml \<times> yaml \<Rightarrow> cache \<Rightarrow> (decode_error, cache) result" where
  "cache_entry f kv c = (case as_str (fst kv) of
     None \<Rightarrow> Inr c
   | Some key \<Rightarrow>
      (let s = value_as_string f (snd kv)
       in if key = ''inherit'' then Inr (c\<lparr>ca_inherit := s\<rparr>)
          else if key = ''enabled'' then
            (case snd kv of Bool b \<Rightarrow> Inr (c\<lparr>ca_enabled := Some b\<rparr>) | _ \<Rightarrow> Inr (c\<lparr>ca_if := s\<rparr>))
          else if key = ''url'' then Inr (c\<lparr>ca_url := s\<rparr>)
          else if key = ''lock'' then Inr (c\<lparr>ca_lock := s\<rparr>)
          else if key = ''vk'' then Inr (c\<lparr>ca_vk := s\<rparr>)
          else if key = ''api_key'' then Inr (c\<lparr>ca_api_key := s\<rparr>)
          else if key = ''namespace'' then Inr (c\<lparr>ca_namespace := s\<rparr>)
          else if key = ''ttl'' then Inr (c\<lparr>ca_ttl := s\<rparr>)
          else if key = ''lock_timeout'' then Inr (c\<lparr>ca_lock_timeout := s\<rparr>)
          else if key = ''outside_links'' then
            (case snd kv of Bool b \<Rightarrow> Inr (c\<lparr>ca_outside_links := Some b\<rparr>)
             | _ \<Rightarrow> Inl (TypeMessage ''cache.outside_links''))
          else Inr c))"

definition decode_cache :: "num_fmt \<Rightarrow> cache decoder" where
  "decode_cache f v = (case v of
     String s \<Rightarrow> Inr (default_cache\<lparr>ca_inherit := s\<rparr>)
   | Mapping m \<Rightarrow> try_fold (cache_entry f) m default_cache
   | _ \<Rightarrow> Inl (TypeMessage ''cache''))"

definition decode_caches :: "num_fmt \<Rightarrow> (str, cache) index_map decoder" where
  "decode_caches f v = (case untag v of
     Mapping m \<Rightarrow> try_fold (\<lambda>(k, c) acc. try_bind (de_string k) (\<lambda>key.
                    try_bind (decode_cache f c) (\<lambda>x. Inr (im_insert key x acc)))) m []
   | Null \<Rightarrow> Inr []
   | _ \<Rightarrow> Inl Serde)"

datatype writes_entry = Dir str | TaskEntry glob

definition decode_writes_entry :: "writes_entry decoder" where
  "decode_writes_entry v = (case v of
     Mapping _ \<Rightarrow>
       try_bind (de_struct [''task'', ''vars''] True v) (\<lambda>fs.
       try_bind (opt_field fs ''task'' de_string) (\<lambda>t.
       try_bind (opt_field fs ''vars'' decode_vars) (\<lambda>vs.
       (case t of
          Some t' \<Rightarrow>
            if t' = [] then Inl (Message ''a sandbox.writes `task:` entry names no task'')
            else Inr (TaskEntry (default_glob\<lparr>g_task := t', g_vars := vs\<rparr>))
        | None \<Rightarrow>
            if vs \<noteq> None then Inl (Message ''`vars:` requires `task:`'')
            else Inl (Message ''a sandbox.writes entry is a directory, or `task:` with optional `vars:`'')))))
   | _ \<Rightarrow> map_sum id Dir (de_string v))"

fun split_writes :: "writes_entry list \<Rightarrow> sandbox \<Rightarrow> sandbox" where
  "split_writes [] s = s"
| "split_writes (Dir d # es) s = split_writes es (s\<lparr>sb_writes := sb_writes s @ [d]\<rparr>)"
| "split_writes (TaskEntry g # es) s = split_writes es (s\<lparr>sb_write_tasks := sb_write_tasks s @ [g]\<rparr>)"

definition decode_sandbox :: "sandbox option decoder" where
  "decode_sandbox v = (case v of
     Bool b \<Rightarrow> Inr (if b then Some default_sandbox else None)
   | Mapping _ \<Rightarrow>
       try_bind (de_struct [''reads'', ''writes''] True v) (\<lambda>fs.
       try_bind (field fs ''reads'' [] (de_vec decode_glob)) (\<lambda>reads.
       try_bind (field fs ''writes'' [] (de_vec decode_writes_entry)) (\<lambda>writes.
       if list_ex is_reference reads
       then Inl (Message ''sandbox.reads does not support `from:` or `task:`; list the files, or add them to sources'')
       else Inr (Some (split_writes writes (default_sandbox\<lparr>sb_reads := reads\<rparr>))))))
   | _ \<Rightarrow> Inl (TypeMessage ''sandbox''))"

section \<open>Tasks\<close>

definition skip_null :: "'a option list \<Rightarrow> 'a list" where
  "skip_null xs = concat (map (\<lambda>x. case x of None \<Rightarrow> [] | Some y \<Rightarrow> [y]) xs)"

definition de_vec_skip_null :: "'a decoder \<Rightarrow> 'a list decoder" where
  "de_vec_skip_null d v = map_sum id skip_null (de_vec (de_option d) v)"

definition de_opt_vec_skip_null :: "'a decoder \<Rightarrow> 'a list option decoder" where
  "de_opt_vec_skip_null d v = map_sum id (map_option skip_null) (de_option (de_vec (de_option d)) v)"

text \<open>One decoded field stored in the task.\<close>

definition store :: "(decode_error, 'a) result \<Rightarrow> ('a \<Rightarrow> task \<Rightarrow> task) \<Rightarrow> task \<Rightarrow> (decode_error, task) result" where
  "store r upd t = try_bind r (\<lambda>x. Inr (upd x t))"

definition task_fields :: "str list" where
  "task_fields = [''setup'', ''cmds'', ''cmd'', ''deps'', ''label'', ''desc'', ''prompt'', ''summary'',
     ''aliases'', ''sources'', ''generates'', ''cache'', ''sandbox'', ''preconditions'', ''dir'', ''set'',
     ''shopt'', ''vars'', ''env'', ''dotenv'', ''silent'', ''interactive'', ''internal'', ''prefix'',
     ''ignore_error'', ''run'', ''platforms'', ''if'', ''requires'', ''watch'', ''failfast'']"

definition raw_cmds :: "cmd option \<Rightarrow> cmd list option \<Rightarrow> (decode_error, cmd list) result" where
  "raw_cmds c cs = (case (c, cs) of
     (Some _, Some _) \<Rightarrow> Inl (Message ''task cannot have both cmd and cmds'')
   | (Some x, None) \<Rightarrow> Inr [x]
   | (None, cs') \<Rightarrow> Inr (case cs' of Some xs \<Rightarrow> xs | None \<Rightarrow> []))"

definition task_steps :: "num_fmt \<Rightarrow> (str \<times> yaml) list \<Rightarrow> (task \<Rightarrow> (decode_error, task) result) list" where
  "task_steps f fs =
    [store (field fs ''setup'' [] (de_vec_skip_null decode_dep)) (\<lambda>x t. t\<lparr>t_setup := x\<rparr>),
     store (try_bind (field fs ''cmds'' None (de_opt_vec_skip_null decode_cmd)) (\<lambda>cs.
            try_bind (opt_field fs ''cmd'' decode_cmd) (\<lambda>c. raw_cmds c cs))) (\<lambda>x t. t\<lparr>t_cmds := x\<rparr>),
     store (field fs ''deps'' [] (de_vec_skip_null decode_dep)) (\<lambda>x t. t\<lparr>t_deps := x\<rparr>),
     store (field fs ''label'' [] de_string) (\<lambda>x t. t\<lparr>t_label := x\<rparr>),
     store (field fs ''desc'' [] de_string) (\<lambda>x t. t\<lparr>t_desc := x\<rparr>),
     store (field fs ''prompt'' [] decode_prompt) (\<lambda>x t. t\<lparr>t_prompt := x\<rparr>),
     store (field fs ''summary'' [] de_string) (\<lambda>x t. t\<lparr>t_summary := x\<rparr>),
     store (field fs ''aliases'' [] (de_vec de_string)) (\<lambda>x t. t\<lparr>t_aliases := x\<rparr>),
     store (field fs ''sources'' [] (de_vec decode_glob)) (\<lambda>x t. t\<lparr>t_sources := x\<rparr>),
     store (field fs ''generates'' [] (de_vec decode_glob)) (\<lambda>x t. t\<lparr>t_generates := x\<rparr>),
     store (opt_field fs ''cache'' (decode_cache f)) (\<lambda>x t. t\<lparr>t_cache := x\<rparr>),
     store (field fs ''sandbox'' None decode_sandbox) (\<lambda>x t. t\<lparr>t_sandbox := x\<rparr>),
     store (field fs ''preconditions'' [] (de_vec_skip_null decode_precondition)) (\<lambda>x t. t\<lparr>t_preconditions := x\<rparr>),
     store (field fs ''dir'' [] de_string) (\<lambda>x t. t\<lparr>t_dirs := if x = [] then [] else [x]\<rparr>),
     store (field fs ''set'' [] (de_vec de_string)) (\<lambda>x t. t\<lparr>t_set := x\<rparr>),
     store (field fs ''shopt'' [] (de_vec de_string)) (\<lambda>x t. t\<lparr>t_shopt := x\<rparr>),
     store (opt_field fs ''vars'' decode_vars) (\<lambda>x t. t\<lparr>t_vars := x\<rparr>),
     store (opt_field fs ''env'' decode_vars) (\<lambda>x t. t\<lparr>t_env := x\<rparr>),
     store (field fs ''dotenv'' [] (de_vec de_string)) (\<lambda>x t. t\<lparr>t_dotenv := x\<rparr>),
     store (opt_field fs ''silent'' de_bool) (\<lambda>x t. t\<lparr>t_silent := x\<rparr>),
     store (field fs ''interactive'' False de_bool) (\<lambda>x t. t\<lparr>t_interactive := x\<rparr>),
     store (field fs ''internal'' False de_bool) (\<lambda>x t. t\<lparr>t_internal := x\<rparr>),
     store (field fs ''prefix'' [] de_string) (\<lambda>x t. t\<lparr>t_prefix := x\<rparr>),
     store (field fs ''ignore_error'' False de_bool) (\<lambda>x t. t\<lparr>t_ignore_error := x\<rparr>),
     store (field fs ''run'' [] de_string) (\<lambda>x t. t\<lparr>t_run := x\<rparr>),
     store (field fs ''platforms'' [] (de_vec decode_platform)) (\<lambda>x t. t\<lparr>t_platforms := x\<rparr>),
     store (field fs ''if'' [] de_string) (\<lambda>x t. t\<lparr>t_if := x\<rparr>),
     store (opt_field fs ''requires'' decode_requires) (\<lambda>x t. t\<lparr>t_requires := x\<rparr>),
     store (field fs ''watch'' False de_bool) (\<lambda>x t. t\<lparr>t_watch := x\<rparr>),
     store (field fs ''failfast'' False de_bool) (\<lambda>x t. t\<lparr>t_failfast := x\<rparr>)]"

definition decode_task :: "num_fmt \<Rightarrow> task decoder" where
  "decode_task f v = (case v of
     Null \<Rightarrow> Inr default_task
   | Sequence _ \<Rightarrow> try_bind (de_vec decode_cmd v) (\<lambda>cs. Inr (default_task\<lparr>t_cmds := cs\<rparr>))
   | Mapping _ \<Rightarrow> try_bind (de_struct task_fields False v) (\<lambda>fs.
       try_fold (\<lambda>step t. step t) (task_steps f fs) default_task)
   | _ \<Rightarrow> try_bind (decode_cmd v) (\<lambda>c. Inr (default_task\<lparr>t_cmds := [c]\<rparr>)))"

definition decode_tasks :: "num_fmt \<Rightarrow> tasks decoder" where
  "decode_tasks f v = (case v of
     Mapping m \<Rightarrow> decode_entries ''tasks'' (\<lambda>key x. try_bind (decode_task f x) (\<lambda>t.
        Inr (t\<lparr>t_task := key, t_location := Some default_location\<rparr>))) m
   | _ \<Rightarrow> Inl (TypeMessage ''tasks''))"

section \<open>Includes and the Taskfile\<close>

definition decode_include :: "include_decl decoder" where
  "decode_include v = (case v of
     String s \<Rightarrow> Inr (default_include\<lparr>i_taskfile := s\<rparr>)
   | Mapping _ \<Rightarrow>
       try_bind (de_struct [''taskfile'', ''dir'', ''optional'', ''internal'', ''flatten'', ''aliases'',
                            ''excludes'', ''vars''] False v) (\<lambda>fs.
       try_bind (field fs ''taskfile'' [] de_string) (\<lambda>tf.
       try_bind (field fs ''dir'' [] de_string) (\<lambda>d.
       try_bind (field fs ''optional'' False de_bool) (\<lambda>opt.
       try_bind (field fs ''internal'' False de_bool) (\<lambda>int.
       try_bind (field fs ''flatten'' False de_bool) (\<lambda>fl.
       try_bind (field fs ''aliases'' [] (de_vec de_string)) (\<lambda>al.
       try_bind (field fs ''excludes'' [] (de_vec de_string)) (\<lambda>ex.
       try_bind (opt_field fs ''vars'' decode_vars) (\<lambda>vs.
       Inr (default_include\<lparr>i_taskfile := tf, i_dir := d, i_optional := opt, i_internal := int,
          i_aliases := al, i_excludes := ex, i_advanced_import := True, i_vars := vs,
          i_flatten := fl\<rparr>))))))))))
   | _ \<Rightarrow> Inl (TypeMessage ''include''))"

definition decode_includes :: "includes_map decoder" where
  "decode_includes v = (case v of
     Mapping m \<Rightarrow> decode_entries ''includes'' (\<lambda>key x. try_bind (decode_include x) (\<lambda>i.
        Inr (i\<lparr>i_namespace := key\<rparr>))) m
   | _ \<Rightarrow> Inl (TypeMessage ''includes''))"

definition decode_output_group :: "output_group decoder" where
  "decode_output_group v =
     try_bind (de_struct [''begin'', ''end'', ''error_only''] False v) (\<lambda>fs.
     try_bind (field fs ''begin'' [] de_string) (\<lambda>b.
     try_bind (field fs ''end'' [] de_string) (\<lambda>e.
     try_bind (field fs ''error_only'' False de_bool) (\<lambda>eo.
     Inr \<lparr>og_begin = b, og_end = e, og_error_only = eo\<rparr>))))"

definition decode_output :: "output_style decoder" where
  "decode_output v = (case v of
     String s \<Rightarrow> Inr (default_output\<lparr>o_name := s\<rparr>)
   | Mapping _ \<Rightarrow> try_bind (de_struct [''group''] False v) (\<lambda>fs.
       try_bind (opt_field fs ''group'' decode_output_group) (\<lambda>g.
       case g of
         Some g' \<Rightarrow> Inr \<lparr>o_name = ''group'', o_group = g'\<rparr>
       | None \<Rightarrow> Inl (Message (''output style must have the '' @ quoted ''group'' @ '' key when in mapping form''))))
   | _ \<Rightarrow> Inl (TypeMessage ''output''))"

definition de_scalar_string :: "num_fmt \<Rightarrow> str option decoder" where
  "de_scalar_string f v = (case v of
     Null \<Rightarrow> Inr None
   | String s \<Rightarrow> Inr (Some s)
   | Number n \<Rightarrow> Inr (Some (number_display f n))
   | Bool b \<Rightarrow> Inr (Some (if b then ''true'' else ''false''))
   | _ \<Rightarrow> Inl Serde)"

definition taskfile_fields :: "str list" where
  "taskfile_fields = [''version'', ''output'', ''includes'', ''set'', ''shopt'', ''vars'', ''env'',
     ''tasks'', ''silent'', ''dotenv'', ''run'', ''interval'', ''caches'', ''templater'']"

definition decode_taskfile :: "num_fmt \<Rightarrow> taskfile decoder" where
  "decode_taskfile f v = (case v of
     Mapping _ \<Rightarrow>
       try_bind (de_struct taskfile_fields False v) (\<lambda>fs.
       try_bind (field fs ''version'' None (de_scalar_string f)) (\<lambda>version.
       try_bind (field fs ''output'' default_output decode_output) (\<lambda>out.
       try_bind (opt_field fs ''includes'' decode_includes) (\<lambda>incs.
       try_bind (field fs ''set'' [] (de_vec de_string)) (\<lambda>st.
       try_bind (field fs ''shopt'' [] (de_vec de_string)) (\<lambda>sh.
       try_bind (opt_field fs ''vars'' decode_vars) (\<lambda>vars.
       try_bind (opt_field fs ''env'' decode_vars) (\<lambda>env.
       try_bind (opt_field fs ''tasks'' (decode_tasks f)) (\<lambda>tasks.
       try_bind (field fs ''silent'' False de_bool) (\<lambda>sil.
       try_bind (field fs ''dotenv'' [] (de_vec de_string)) (\<lambda>de.
       try_bind (field fs ''run'' [] de_string) (\<lambda>run.
       try_bind (field fs ''interval'' [] de_string) (\<lambda>interval.
       try_bind (field fs ''caches'' [] (decode_caches f)) (\<lambda>caches.
       try_bind (opt_field fs ''templater'' decode_dialect) (\<lambda>templater.
       Inr \<lparr>tf_location = [], tf_version = version, tf_output = out,
            tf_includes = (case incs of Some x \<Rightarrow> x | None \<Rightarrow> []), tf_set = st, tf_shopt = sh,
            tf_vars = (case vars of Some x \<Rightarrow> x | None \<Rightarrow> []),
            tf_env = (case env of Some x \<Rightarrow> x | None \<Rightarrow> []),
            tf_tasks = (case tasks of Some x \<Rightarrow> x | None \<Rightarrow> []),
            tf_silent = sil, tf_dotenv = de, tf_run = run, tf_interval = interval,
            tf_caches = caches, tf_templater = (case templater of Some d \<Rightarrow> d | None \<Rightarrow> Go),
            tf_templater_explicit = (templater \<noteq> None)\<rparr>)))))))))))))))
   | _ \<Rightarrow> Inl (TypeMessage ''taskfile''))"

section \<open>Well-formed syntax trees\<close>

definition wf_vars :: "vars option \<Rightarrow> bool" where
  "wf_vars vs = (case vs of None \<Rightarrow> True | Some m \<Rightarrow> im_ok m)"

definition wf_platform :: "platform \<Rightarrow> bool" where
  "wf_platform p = ((p_os p \<noteq> [] \<or> p_arch p \<noteq> [])
     \<and> (p_os p = [] \<or> is_known_os (p_os p)) \<and> (p_arch p = [] \<or> is_known_arch (p_arch p)))"

text \<open>A loop has one source: \<open>from\<close>, a list, a variable or a matrix.\<close>

definition wf_for :: "for_loop option \<Rightarrow> bool" where
  "wf_for fo = (case fo of None \<Rightarrow> True | Some f \<Rightarrow>
     (f_from f \<noteq> [] \<longrightarrow> f_list f = [] \<and> f_matrix f = None \<and> f_var f = [])
   \<and> (f_list f \<noteq> [] \<longrightarrow> f_matrix f = None \<and> f_var f = [])
   \<and> (f_var f \<noteq> [] \<longrightarrow> f_matrix f = None \<or> f_matrix f = Some [])
   \<and> (\<forall>m. f_matrix f = Some m \<longrightarrow> im_ok m \<and> (\<forall>(k, r)\<in>set m. mr_ref r = [] \<or> mr_value r = [])))"

text \<open>A command is a shell command or a task call, and carries only the options of its kind.\<close>

definition wf_cmd :: "cmd \<Rightarrow> bool" where
  "wf_cmd c = ((c_cmd c = [] \<or> c_task c = [])
     \<and> (c_defer c \<longrightarrow> (c_cmd c \<noteq> [] \<or> c_task c \<noteq> []) \<and> c_for c = None \<and> c_if c = [] \<and> \<not> c_ignore_error c)
     \<and> (c_task c = [] \<longrightarrow> c_vars c = None)
     \<and> (c_task c \<noteq> [] \<longrightarrow> c_set c = [] \<and> c_shopt c = [] \<and> c_platforms c = [])
     \<and> wf_for (c_for c) \<and> wf_vars (c_vars c) \<and> list_all wf_platform (c_platforms c))"

definition wf_dep :: "dep \<Rightarrow> bool" where
  "wf_dep d = (wf_for (d_for d) \<and> wf_vars (d_vars d))"

text \<open>An entry that references tasks carries no pattern; variables go with \<open>task:\<close> only.\<close>

definition wf_glob :: "glob \<Rightarrow> bool" where
  "wf_glob g = ((is_reference g \<longrightarrow> g_glob g = [] \<and> \<not> g_negate g \<and> g_fingerprint g = [])
     \<and> \<not> (g_from g \<noteq> [] \<and> g_task g \<noteq> []) \<and> (g_vars g \<noteq> None \<longrightarrow> g_task g \<noteq> [])
     \<and> g_group g = 0 \<and> \<not> g_folded g \<and> wf_vars (g_vars g))"

definition wf_sandbox :: "sandbox option \<Rightarrow> bool" where
  "wf_sandbox so = (case so of None \<Rightarrow> True | Some s \<Rightarrow>
     list_all (\<lambda>g. wf_glob g \<and> \<not> is_reference g) (sb_reads s)
   \<and> list_all (\<lambda>g. wf_glob g \<and> g_task g \<noteq> []) (sb_write_tasks s) \<and> sb_task_grants s = [])"

definition wf_task :: "task \<Rightarrow> bool" where
  "wf_task t = (list_all wf_dep (t_setup t) \<and> list_all wf_dep (t_deps t) \<and> list_all wf_cmd (t_cmds t)
     \<and> list_all wf_glob (t_sources t) \<and> list_all wf_glob (t_generates t)
     \<and> wf_sandbox (t_sandbox t) \<and> list_all wf_platform (t_platforms t)
     \<and> wf_vars (t_vars t) \<and> wf_vars (t_env t) \<and> length (t_dirs t) \<le> 1
     \<and> t_namespace t = [] \<and> t_full_name t = [] \<and> t_include_vars t = None)"

definition wf_tasks :: "tasks \<Rightarrow> bool" where
  "wf_tasks m = (im_ok m \<and> (\<forall>(k, t)\<in>set m. t_task t = k \<and> wf_task t))"

definition wf_includes :: "includes_map \<Rightarrow> bool" where
  "wf_includes m = (im_ok m \<and> (\<forall>(k, i)\<in>set m. i_namespace i = k \<and> wf_vars (i_vars i)))"

definition wf_taskfile :: "taskfile \<Rightarrow> bool" where
  "wf_taskfile tf = (wf_tasks (tf_tasks tf) \<and> wf_includes (tf_includes tf)
     \<and> im_ok (tf_vars tf) \<and> im_ok (tf_env tf)
     \<and> (\<not> tf_templater_explicit tf \<longrightarrow> tf_templater tf = Go))"

section \<open>The readers produce well-formed trees\<close>

lemma decode_entries_inv:
  assumes "decode_entries what d m = Inr r" and "\<And>k v x. d k v = Inr x \<Longrightarrow> P k x"
  shows "im_ok r \<and> (\<forall>(k, x)\<in>set r. P k x)"
  using assms(1) unfolding decode_entries_def
proof (rule try_fold_invariant)
  show "im_ok [] \<and> (\<forall>(k, x)\<in>set []. P k x)" by (simp add: im_ok_def)
  fix kv :: "yaml \<times> yaml" and t t'
  assume inv: "im_ok t \<and> (\<forall>(k, x)\<in>set t. P k x)"
    and step: "(case kv of (k, v) \<Rightarrow> \<lambda>acc. case as_str k of
       None \<Rightarrow> Inl (TypeMessage what)
     | Some key \<Rightarrow> try_bind (d key v) (\<lambda>x. Inr (im_insert key x acc))) t = Inr t'"
  from step obtain key v x where "d key v = Inr x" "t' = im_insert key x t"
    by (auto split: prod.splits option.splits)
  then show "im_ok t' \<and> (\<forall>(k, x)\<in>set t'. P k x)"
    using inv assms(2) [of key v x] im.ok_insert [of t key x] set_im_insert [of key x t] by auto
qed

lemma decode_vars_ok: "decode_vars v = Inr m \<Longrightarrow> wf_vars (Some m)"
  by (auto simp: decode_vars_def wf_vars_def split: yaml.splits
      dest: decode_entries_inv [where P = "\<lambda>_ _. True"])

lemma decode_platform_wf: "decode_platform v = Inr p \<Longrightarrow> wf_platform p"
  using known_no_slash
  by (auto simp: decode_platform_def wf_platform_def parse_platform_def default_platform_def Let_def
      parse_os_or_arch_def parse_arch_def split: sum.splits platform_error.splits if_splits)

lemma decode_matrix_row_wf: "decode_matrix_row v = Inr r \<Longrightarrow> mr_ref r = [] \<or> mr_value r = []"
  by (auto simp: decode_matrix_row_def split: yaml.splits)

lemma decode_matrix_wf:
  "decode_matrix v = Inr m \<Longrightarrow> im_ok m \<and> (\<forall>(k, r)\<in>set m. mr_ref r = [] \<or> mr_value r = [])"
  by (auto simp: decode_matrix_def split: yaml.splits
      dest!: decode_entries_inv [where P = "\<lambda>_ r. mr_ref r = [] \<or> mr_value r = []"] decode_matrix_row_wf)

lemma opt_field_pred:
  assumes "opt_field fs k d = Inr r" "\<And>v x. d v = Inr x \<Longrightarrow> P (Some x)" "P None"
  shows "P r"
  using assms opt_field_holds [of fs k d _ "\<lambda>x. P (Some x)"] by (cases r) auto

lemma field_pred:
  assumes "field fs k None (de_option d) = Inr r" "\<And>v x. d v = Inr x \<Longrightarrow> P (Some x)" "P None"
  shows "P r"
  using opt_field_pred [of fs k d r P] assms by (simp add: opt_field_def)

lemma wf_vars_None [simp]: "wf_vars None" by (simp add: wf_vars_def)

lemma wf_for_None [simp]: "wf_for None" by (simp add: wf_for_def)

definition matrix_ok :: "matrix option \<Rightarrow> bool" where
  "matrix_ok mo = (\<forall>m. mo = Some m \<longrightarrow> im_ok m \<and> (\<forall>(k, r)\<in>set m. mr_ref r = [] \<or> mr_value r = []))"

lemma opt_field_matrix: "opt_field fs k decode_matrix = Inr mo \<Longrightarrow> matrix_ok mo"
  by (rule opt_field_pred) (auto simp: matrix_ok_def dest: decode_matrix_wf)

lemma opt_field_vars: "opt_field fs k decode_vars = Inr vs \<Longrightarrow> wf_vars vs"
  by (rule opt_field_pred) (auto dest: decode_vars_ok)

lemma decode_for_wf:
  assumes "decode_for v = Inr f" shows "wf_for (Some f)"
proof (cases v)
  case (Mapping m)
  then obtain mx var split as where mx: "matrix_ok mx"
    and c: "var = [] \<or> (case mx of None \<Rightarrow> 0 | Some m \<Rightarrow> length m) = 0"
    and f: "f = default_for\<lparr>f_matrix := mx, f_var := var, f_split := split, f_as := as\<rparr>"
    using assms by (auto simp: decode_for_def Let_def split: if_splits dest!: opt_field_matrix)
  from c have "var \<noteq> [] \<Longrightarrow> mx = None \<or> mx = Some []" by (cases mx) auto
  with mx f show ?thesis by (auto simp: wf_for_def matrix_ok_def default_for_def)
qed (use assms in \<open>auto simp: decode_for_def wf_for_def default_for_def\<close>)

lemma field_for: "field fs k None (de_option decode_for) = Inr fo \<Longrightarrow> wf_for fo"
  by (rule field_pred) (auto dest: decode_for_wf)

lemma field_list:
  assumes "field fs k [] (de_vec d) = Inr xs" "\<And>v x. d v = Inr x \<Longrightarrow> P x"
  shows "list_all P xs"
  using field_holds [of fs k "[]" "de_vec d" xs "list_all P"] assms de_vec_all [of d _ _ P] by simp

lemma list_all_skip_null: "list_all (\<lambda>x. \<forall>y. x = Some y \<longrightarrow> P y) xs \<Longrightarrow> list_all P (skip_null xs)"
  by (induction xs) (auto simp: skip_null_def split: option.splits)

lemma de_vec_skip_null_all:
  assumes "de_vec_skip_null d v = Inr xs" "\<And>v x. d v = Inr x \<Longrightarrow> P x"
  shows "list_all P xs"
proof -
  from assms(1) obtain ys where ys: "de_vec (de_option d) v = Inr ys" "xs = skip_null ys"
    by (cases "de_vec (de_option d) v") (auto simp: de_vec_skip_null_def)
  have "list_all (\<lambda>x. \<forall>y. x = Some y \<longrightarrow> P y) ys"
    by (rule de_vec_all [OF ys(1)]) (auto dest: de_option_Some assms(2))
  with ys(2) show ?thesis by (simp add: list_all_skip_null)
qed

lemma field_list_skip_null:
  assumes "field fs k [] (de_vec_skip_null d) = Inr xs" "\<And>v x. d v = Inr x \<Longrightarrow> P x"
  shows "list_all P xs"
  using field_holds [of fs k "[]" "de_vec_skip_null d" xs "list_all P"] assms
    de_vec_skip_null_all [of d _ _ P] by simp

lemma field_platforms: "field fs k [] (de_vec decode_platform) = Inr ps \<Longrightarrow> list_all wf_platform ps"
  by (rule field_list) (auto dest: decode_platform_wf)

lemma defer_vars_wf: "decode_defer v = Inr d \<Longrightarrow> wf_vars (df_vars d)"
  by (auto simp: decode_defer_def split: yaml.splits dest: opt_field_vars)

lemma decode_cmd_raw_wf:
  assumes "decode_cmd_raw v = Inr raw"
  shows "wf_for (cr_for raw) \<and> wf_vars (cr_vars raw) \<and> list_all wf_platform (cr_platforms raw)
    \<and> (\<forall>d. cr_defer raw = Some d \<longrightarrow> wf_vars (df_vars d))"
proof -
  from assms obtain fs where *: "field fs ''for'' None (de_option decode_for) = Inr (cr_for raw)"
    "opt_field fs ''vars'' decode_vars = Inr (cr_vars raw)"
    "opt_field fs ''defer'' decode_defer = Inr (cr_defer raw)"
    "field fs ''platforms'' [] (de_vec decode_platform) = Inr (cr_platforms raw)"
    by (auto simp: decode_cmd_raw_def)
  have "\<forall>d. cr_defer raw = Some d \<longrightarrow> wf_vars (df_vars d)"
    by (rule opt_field_pred [OF *(3)]) (auto dest: defer_vars_wf)
  with * show ?thesis by (simp add: field_for opt_field_vars field_platforms)
qed

lemma cmd_of_raw_wf:
  assumes "cmd_of_raw raw = Inr c" "wf_for (cr_for raw)" "wf_vars (cr_vars raw)"
    "list_all wf_platform (cr_platforms raw)" "\<forall>d. cr_defer raw = Some d \<longrightarrow> wf_vars (df_vars d)"
  shows "wf_cmd c"
  using assms by (auto simp: cmd_of_raw_def wf_cmd_def default_cmd_def split: option.splits if_splits)

lemma decode_cmd_wf:
  assumes "decode_cmd v = Inr c" shows "wf_cmd c"
proof (cases v)
  case (Mapping m)
  with assms obtain raw where raw: "decode_cmd_raw v = Inr raw" and c: "cmd_of_raw raw = Inr c"
    by (auto simp: decode_cmd_def)
  show ?thesis using cmd_of_raw_wf [OF c] decode_cmd_raw_wf [OF raw] by blast
qed (use assms in \<open>auto simp: decode_cmd_def wf_cmd_def default_cmd_def\<close>)

lemma decode_dep_wf: "decode_dep v = Inr d \<Longrightarrow> wf_dep d"
  by (cases v) (auto simp: decode_dep_def wf_dep_def default_dep_def dest: field_for opt_field_vars)

lemma glob_of_raw_wf:
  assumes "glob_of_raw ex gl fp fr t vs = Inr g" "wf_vars vs" shows "wf_glob g"
  using assms
  by (auto simp: glob_of_raw_def wf_glob_def default_glob_def is_reference_def split: if_splits)

lemma decode_glob_wf:
  assumes "decode_glob v = Inr g" shows "wf_glob g"
proof (cases v)
  case (Mapping m)
  with assms obtain fs ex gl fp fr t vs where "opt_field fs ''vars'' decode_vars = Inr vs"
    and "glob_of_raw ex gl fp fr t vs = Inr g"
    by (auto simp: decode_glob_def)
  then show ?thesis by (blast intro: glob_of_raw_wf opt_field_vars)
qed (use assms in \<open>auto simp: decode_glob_def wf_glob_def default_glob_def is_reference_def\<close>)

lemma field_globs: "field fs k [] (de_vec decode_glob) = Inr gs \<Longrightarrow> list_all wf_glob gs"
  by (rule field_list) (auto dest: decode_glob_wf)

lemma field_deps: "field fs k [] (de_vec_skip_null decode_dep) = Inr ds \<Longrightarrow> list_all wf_dep ds"
  by (rule field_list_skip_null) (auto dest: decode_dep_wf)

definition wf_writes :: "writes_entry \<Rightarrow> bool" where
  "wf_writes e = (case e of Dir _ \<Rightarrow> True | TaskEntry g \<Rightarrow> wf_glob g \<and> g_task g \<noteq> [])"

lemma map_sum_Dir [simp]: "map_sum id Dir r = Inr e \<longleftrightarrow> (\<exists>d. r = Inr d \<and> e = Dir d)"
  by (cases r) auto

lemma decode_writes_entry_wf: "decode_writes_entry v = Inr e \<Longrightarrow> wf_writes e"
  by (cases v)
     (auto simp: decode_writes_entry_def wf_writes_def wf_glob_def default_glob_def is_reference_def
      split: if_splits option.splits dest: opt_field_vars)

lemma split_writes_wf:
  assumes "list_all wf_writes es" "wf_sandbox (Some s)"
  shows "wf_sandbox (Some (split_writes es s))"
  using assms by (induction es s rule: split_writes.induct) (auto simp: wf_sandbox_def wf_writes_def)

lemma decode_sandbox_wf:
  assumes "decode_sandbox v = Inr so" shows "wf_sandbox so"
proof (cases v)
  case (Mapping m)
  with assms obtain fs reads writes where
    r: "field fs ''reads'' [] (de_vec decode_glob) = Inr reads"
    and w: "field fs ''writes'' [] (de_vec decode_writes_entry) = Inr writes"
    and n: "\<not> list_ex is_reference reads"
    and so: "so = Some (split_writes writes (default_sandbox\<lparr>sb_reads := reads\<rparr>))"
    by (auto simp: decode_sandbox_def split: if_splits)
  have "wf_sandbox (Some (default_sandbox\<lparr>sb_reads := reads\<rparr>))"
    using field_globs [OF r] n
    by (auto simp: wf_sandbox_def default_sandbox_def list_all_iff list_ex_iff)
  moreover have "list_all wf_writes writes"
    by (rule field_list [OF w]) (rule decode_writes_entry_wf)
  ultimately show ?thesis unfolding so by (intro split_writes_wf)
qed (use assms in \<open>auto simp: decode_sandbox_def wf_sandbox_def default_sandbox_def split: if_splits\<close>)

lemma field_sandbox: "field fs k None decode_sandbox = Inr so \<Longrightarrow> wf_sandbox so"
  by (rule field_holds [where P = wf_sandbox]) (auto simp: wf_sandbox_def [of None] dest: decode_sandbox_wf)

lemma raw_cmds_wf:
  assumes "field fs ''cmds'' None (de_opt_vec_skip_null decode_cmd) = Inr cs"
    and "opt_field fs ''cmd'' decode_cmd = Inr c" and "raw_cmds c cs = Inr xs"
  shows "list_all wf_cmd xs"
proof -
  have "\<forall>ys. cs = Some ys \<longrightarrow> list_all wf_cmd ys"
  proof (rule field_holds [OF assms(1)])
    fix v r assume "de_opt_vec_skip_null decode_cmd v = Inr r"
    then obtain zo where z: "de_option (de_vec (de_option decode_cmd)) v = Inr zo" "r = map_option skip_null zo"
      by (cases "de_option (de_vec (de_option decode_cmd)) v") (auto simp: de_opt_vec_skip_null_def)
    have "list_all (\<lambda>x. \<forall>y. x = Some y \<longrightarrow> wf_cmd y) zs" if "zo = Some zs" for zs
      by (rule de_vec_all [OF de_option_Some]) (use z that in \<open>auto dest: de_option_Some decode_cmd_wf\<close>)
    with z(2) show "\<forall>ys. r = Some ys \<longrightarrow> list_all wf_cmd ys"
      by (auto intro: list_all_skip_null)
  qed simp
  moreover have "\<forall>x. c = Some x \<longrightarrow> wf_cmd x"
    by (rule opt_field_pred [OF assms(2)]) (auto dest: decode_cmd_wf)
  ultimately show ?thesis using assms(3)
    by (auto simp: raw_cmds_def split: option.splits)
qed

text \<open>Each step of the field loop keeps the task well-formed.\<close>

definition keeps_wf :: "(task \<Rightarrow> (decode_error, task) result) \<Rightarrow> bool" where
  "keeps_wf step = (\<forall>t t'. wf_task t \<longrightarrow> step t = Inr t' \<longrightarrow> wf_task t')"

lemma store_keeps:
  assumes "\<And>x t. r = Inr x \<Longrightarrow> wf_task t \<Longrightarrow> wf_task (upd x t)"
  shows "keeps_wf (store r upd)"
  using assms by (auto simp: keeps_wf_def store_def)

lemma task_steps_keep_wf: "list_all keeps_wf (task_steps f fs)"
  unfolding task_steps_def list.pred_inject
  by (intro conjI TrueI store_keeps)
     (auto simp: wf_task_def dest: field_globs field_deps field_platforms opt_field_vars raw_cmds_wf field_sandbox)

lemma wf_task_default: "wf_task default_task"
  by (simp add: wf_task_def default_task_def wf_sandbox_def)

lemma wf_task_cmds: "wf_task t \<Longrightarrow> list_all wf_cmd cs \<Longrightarrow> wf_task (t\<lparr>t_cmds := cs\<rparr>)"
  by (simp add: wf_task_def)

lemma task_fold_wf:
  assumes "try_fold (\<lambda>step t. step t) (task_steps f fs) default_task = Inr t"
  shows "wf_task t"
  using assms wf_task_default
proof (rule try_fold_invariant)
  fix step u u' assume "step \<in> set (task_steps f fs)" "wf_task u" "step u = Inr u'"
  then show "wf_task u'" using task_steps_keep_wf [of f fs] by (auto simp: list_all_iff keeps_wf_def)
qed

lemma single_cmd_wf:
  assumes "try_bind (decode_cmd v) (\<lambda>c. Inr (default_task\<lparr>t_cmds := [c]\<rparr>)) = Inr t"
  shows "wf_task t"
proof -
  from assms obtain c where "decode_cmd v = Inr c" "t = default_task\<lparr>t_cmds := [c]\<rparr>"
    unfolding try_bind_eq_Inr by blast
  then show ?thesis by (simp add: wf_task_cmds wf_task_default decode_cmd_wf)
qed

lemma cmd_list_wf:
  assumes "try_bind (de_vec decode_cmd v) (\<lambda>cs. Inr (default_task\<lparr>t_cmds := cs\<rparr>)) = Inr t"
  shows "wf_task t"
proof -
  from assms obtain cs where "de_vec decode_cmd v = Inr cs" "t = default_task\<lparr>t_cmds := cs\<rparr>"
    unfolding try_bind_eq_Inr by blast
  moreover from this(1) have "list_all wf_cmd cs" by (rule de_vec_all) (rule decode_cmd_wf)
  ultimately show ?thesis by (simp add: wf_task_cmds wf_task_default)
qed

lemma task_struct_wf:
  assumes "try_bind (de_struct task_fields False v) (\<lambda>fs.
       try_fold (\<lambda>step t. step t) (task_steps f fs) default_task) = Inr t"
  shows "wf_task t"
proof -
  from assms obtain fs where "try_fold (\<lambda>step t. step t) (task_steps f fs) default_task = Inr t"
    unfolding try_bind_eq_Inr by blast
  then show ?thesis by (rule task_fold_wf)
qed

lemma decode_task_wf:
  assumes "decode_task f v = Inr t" shows "wf_task t"
proof (cases v)
  case Null
  with assms show ?thesis using wf_task_default by (simp add: decode_task_def)
next
  case (Sequence x)
  show ?thesis by (rule cmd_list_wf [of v]) (use assms Sequence in \<open>simp only: decode_task_def yaml.case\<close>)
next
  case (Mapping x)
  show ?thesis by (rule task_struct_wf [of v f]) (use assms Mapping in \<open>simp only: decode_task_def yaml.case\<close>)
qed (rule single_cmd_wf [of v]; use assms in \<open>simp only: decode_task_def yaml.case\<close>)+

lemma decode_tasks_wf:
  assumes "decode_tasks f v = Inr m" shows "wf_tasks m"
proof -
  from assms obtain kvs where *: "decode_entries ''tasks'' (\<lambda>key x. try_bind (decode_task f x) (\<lambda>t.
        Inr (t\<lparr>t_task := key, t_location := Some default_location\<rparr>))) kvs = Inr m"
    by (auto simp: decode_tasks_def split: yaml.splits)
  show ?thesis unfolding wf_tasks_def
    by (rule decode_entries_inv [OF *]) (auto simp: wf_task_def dest!: decode_task_wf)
qed

lemma decode_include_vars: "decode_include v = Inr i \<Longrightarrow> wf_vars (i_vars i)"
  by (cases v) (auto simp: decode_include_def default_include_def dest: opt_field_vars)

lemma decode_includes_wf:
  assumes "decode_includes v = Inr m" shows "wf_includes m"
proof -
  from assms obtain kvs where *: "decode_entries ''includes'' (\<lambda>key x. try_bind (decode_include x) (\<lambda>i.
        Inr (i\<lparr>i_namespace := key\<rparr>))) kvs = Inr m"
    by (auto simp: decode_includes_def split: yaml.splits)
  show ?thesis unfolding wf_includes_def
    by (rule decode_entries_inv [OF *]) (auto dest: decode_include_vars)
qed

section \<open>Properties\<close>

text \<open>
  C17: every Taskfile that decodes is well-formed. Its tasks are stored once each under their
  own name, its includes under their namespace, references carry no pattern, variables and
  loops attach only where they are allowed, commands are shell commands or calls but not both,
  platforms are known ones and \<open>sandbox.reads\<close> holds no reference.
\<close>

theorem decode_taskfile_wf:
  assumes "decode_taskfile f v = Inr tf"
  shows "wf_taskfile tf"
proof -
  from assms obtain fs incs vars env tasks templater where
    f: "opt_field fs ''includes'' decode_includes = Inr incs"
      "opt_field fs ''vars'' decode_vars = Inr vars" "opt_field fs ''env'' decode_vars = Inr env"
      "opt_field fs ''tasks'' (decode_tasks f) = Inr tasks"
    and tf: "tf_includes tf = (case incs of Some x \<Rightarrow> x | None \<Rightarrow> [])"
      "tf_vars tf = (case vars of Some x \<Rightarrow> x | None \<Rightarrow> [])"
      "tf_env tf = (case env of Some x \<Rightarrow> x | None \<Rightarrow> [])"
      "tf_tasks tf = (case tasks of Some x \<Rightarrow> x | None \<Rightarrow> [])"
      "tf_templater tf = (case templater of Some d \<Rightarrow> d | None \<Rightarrow> Go)"
      "tf_templater_explicit tf = (templater \<noteq> None)"
    by (auto simp: decode_taskfile_def split: yaml.splits)
  have "wf_includes (case incs of Some x \<Rightarrow> x | None \<Rightarrow> [])"
    by (rule opt_field_pred [OF f(1)]) (auto simp: wf_includes_def [of "[]"] im_ok_def dest: decode_includes_wf)
  moreover have "wf_tasks (case tasks of Some x \<Rightarrow> x | None \<Rightarrow> [])"
    by (rule opt_field_pred [OF f(4)]) (auto simp: wf_tasks_def [of "[]"] im_ok_def dest: decode_tasks_wf)
  ultimately show ?thesis
    using opt_field_vars [OF f(2)] opt_field_vars [OF f(3)] tf
    by (auto simp: wf_taskfile_def wf_vars_def im_ok_def split: option.splits)
qed

definition sample_taskfile_yaml :: yaml where
  "sample_taskfile_yaml = Mapping [(String ''tasks'', Mapping
     [(String ''build'', Sequence [String ''make'']), (String ''lint'', String ''clippy'')])]"

definition no_fmt :: num_fmt where
  "no_fmt = \<lparr>itoa_u64 = (\<lambda>_. []), itoa_i64 = (\<lambda>_. []), ryu_finite = (\<lambda>_. [])\<rparr>"

lemma sample_decodes:
  "(case decode_taskfile no_fmt sample_taskfile_yaml of
      Inr tf \<Rightarrow> im_keys (tf_tasks tf) = [''build'', ''lint'']
    | Inl _ \<Rightarrow> False)"
  by (simp add: decode_taskfile_def sample_taskfile_yaml_def de_struct_def field_names_def de_string_def
      taskfile_fields_def field_def opt_field_def de_option_def decode_tasks_def decode_entries_def
      as_str_def decode_task_def de_vec_def decode_cmd_def im_keys_def)

theorem decode_taskfile_wf_witness:
  "\<exists>tf. decode_taskfile no_fmt sample_taskfile_yaml = Inr tf \<and> wf_taskfile tf
    \<and> im_keys (tf_tasks tf) = [''build'', ''lint'']"
proof -
  obtain tf where tf: "decode_taskfile no_fmt sample_taskfile_yaml = Inr tf"
    and k: "im_keys (tf_tasks tf) = [''build'', ''lint'']"
    using sample_decodes by (auto split: sum.splits)
  from decode_taskfile_wf [OF tf] tf k show ?thesis by blast
qed

end
