(* ===== verification/Merge.thy ===== *)
theory Merge
  imports Decode
begin

text \<open>
  Folding an included Taskfile into the one that includes it (\<open>ast/tasks.rs\<close>,
  \<open>ast/taskfile.rs\<close>): namespacing of names, aliases and references, exclusion, flattening,
  advanced imports, the alias of a default task, and the resolution of root references once
  every include is merged. \<open>Tasks.merge\<close> and \<open>Taskfile.merge\<close> return the error text of the
  source; on an error the receiver is dropped by every caller.
\<close>

section \<open>Names\<close>

definition NAMESPACE_SEPARATOR :: str where
  "NAMESPACE_SEPARATOR = '':''"

definition ROOT_PREFIX :: str where
  "ROOT_PREFIX = ''::''"

definition task_name_with_namespace :: "str \<Rightarrow> str \<Rightarrow> str" where
  "task_name_with_namespace n ns = (case strip_prefix NAMESPACE_SEPARATOR n of
     Some after \<Rightarrow> after
   | None \<Rightarrow> ns @ NAMESPACE_SEPARATOR @ n)"

definition ref_with_namespace :: "str \<Rightarrow> str \<Rightarrow> str" where
  "ref_with_namespace n ns =
     (if starts_with n ROOT_PREFIX then n else task_name_with_namespace n ns)"

section \<open>The task references of a task\<close>

definition map_write_tasks :: "(glob \<Rightarrow> glob) \<Rightarrow> sandbox option \<Rightarrow> sandbox option" where
  "map_write_tasks f s = map_option (\<lambda>sb. sb\<lparr>sb_write_tasks := map f (sb_write_tasks sb)\<rparr>) s"

text \<open>\<open>glob_entries_mut\<close>: the entries of \<open>sources\<close>, \<open>generates\<close> and \<open>sandbox.writes\<close>.\<close>

definition map_glob_entries :: "(glob \<Rightarrow> glob) \<Rightarrow> task \<Rightarrow> task" where
  "map_glob_entries f t = t\<lparr>t_sources := map f (t_sources t), t_generates := map f (t_generates t),
     t_sandbox := map_write_tasks f (t_sandbox t)\<rparr>"

definition map_refs :: "(str \<Rightarrow> str) \<Rightarrow> task \<Rightarrow> task" where
  "map_refs f t = map_glob_entries (\<lambda>g. g\<lparr>g_task := f (g_task g)\<rparr>)
     (t\<lparr>t_setup := map (\<lambda>d. d\<lparr>d_task := f (d_task d)\<rparr>) (t_setup t),
        t_deps := map (\<lambda>d. d\<lparr>d_task := f (d_task d)\<rparr>) (t_deps t),
        t_cmds := map (\<lambda>c. c\<lparr>c_task := f (c_task c)\<rparr>) (t_cmds t)\<rparr>)"

definition glob_entries :: "task \<Rightarrow> glob list" where
  "glob_entries t = t_sources t @ t_generates t
     @ (case t_sandbox t of None \<Rightarrow> [] | Some sb \<Rightarrow> sb_write_tasks sb)"

definition task_refs :: "task \<Rightarrow> str list" where
  "task_refs t = map d_task (t_setup t) @ map d_task (t_deps t) @ map g_task (glob_entries t)
     @ map c_task (t_cmds t)"

definition resolve :: "str \<Rightarrow> str" where
  "resolve n = (case strip_prefix ROOT_PREFIX n of Some after \<Rightarrow> after | None \<Rightarrow> n)"

definition resolve_root_refs :: "tasks \<Rightarrow> tasks" where
  "resolve_root_refs m = map (\<lambda>(k, t). (k, map_refs resolve t)) m"

section \<open>Merging tasks\<close>

definition namespace_ref :: "str \<Rightarrow> str \<Rightarrow> str" where
  "namespace_ref ns n = (if n \<noteq> [] then ref_with_namespace n ns else n)"

definition merged_aliases :: "include_decl \<Rightarrow> task \<Rightarrow> str list" where
  "merged_aliases inc src =
     map (\<lambda>a. task_name_with_namespace a (i_namespace inc)) (t_aliases src)
     @ concat (map (\<lambda>na. task_name_with_namespace (t_task src) na
                 # map (\<lambda>a. task_name_with_namespace a na) (t_aliases src)) (i_aliases inc))"

definition namespaced_task :: "include_decl \<Rightarrow> str \<Rightarrow> task \<Rightarrow> task" where
  "namespaced_task inc name src =
     (let t = map_refs (namespace_ref (i_namespace inc)) src
      in t\<lparr>t_aliases := merged_aliases inc src,
           t_namespace := (if t_namespace src = [] then i_namespace inc
                           else i_namespace inc @ NAMESPACE_SEPARATOR @ t_namespace src),
           t_task := task_name_with_namespace name (i_namespace inc)\<rparr>)"

definition advanced_task :: "include_decl \<Rightarrow> vars \<Rightarrow> task \<Rightarrow> task" where
  "advanced_task inc included_vars t =
     (if i_advanced_import inc
      then let iv = (case t_include_vars t of Some v \<Rightarrow> v | None \<Rightarrow> []);
               iv = (case i_vars inc of Some vs \<Rightarrow> vars_merge iv vs None | None \<Rightarrow> iv)
           in t\<lparr>t_dirs := i_dir inc # t_dirs t, t_include_vars := Some iv,
                t_included_taskfile_vars := Some included_vars\<rparr>
      else t)"

definition merged_name :: "include_decl \<Rightarrow> str \<Rightarrow> str" where
  "merged_name inc name =
     (if i_flatten inc then name else task_name_with_namespace name (i_namespace inc))"

definition merged_task :: "include_decl \<Rightarrow> vars \<Rightarrow> str \<Rightarrow> task \<Rightarrow> task" where
  "merged_task inc included_vars name src =
     (let t = src\<lparr>t_internal := t_internal src \<or> i_internal inc\<rparr>;
          t = (if i_flatten inc then t else namespaced_task inc name t)
      in advanced_task inc included_vars t)"

definition err_multiple :: "str \<Rightarrow> include_decl \<Rightarrow> str" where
  "err_multiple n inc = ''task: Found multiple tasks ('' @ n @ '') included by '' @ quoted (i_namespace inc)
     @ [CHR 0x22]"

definition merge_one :: "include_decl \<Rightarrow> vars \<Rightarrow> str \<times> task \<Rightarrow> tasks \<Rightarrow> (str, tasks) result" where
  "merge_one inc included_vars p self =
     (let (name, src) = p
      in if name \<in> set (i_excludes inc) then Inr self
         else let n = merged_name inc name
              in if im_get self n \<noteq> None then Inl (err_multiple n inc)
                 else Inr (im_insert n (merged_task inc included_vars name src) self))"

text \<open>\<open>get_mut\<close>: change the task stored under a key in place.\<close>

definition im_update :: "'k \<Rightarrow> ('v \<Rightarrow> 'v) \<Rightarrow> ('k, 'v) index_map \<Rightarrow> ('k, 'v) index_map" where
  "im_update k f m = map (\<lambda>(k', v). (k', if k' = k then f v else v)) m"

definition default_alias :: "include_decl \<Rightarrow> tasks \<Rightarrow> tasks \<Rightarrow> tasks" where
  "default_alias inc other self =
     (if im_get other ''default'' \<noteq> None \<and> im_get self (i_namespace inc) = None \<and> \<not> i_flatten inc
      then im_update (i_namespace inc @ '':default'')
             (\<lambda>t. t\<lparr>t_aliases := t_aliases t @ [i_namespace inc] @ i_aliases inc\<rparr>) self
      else self)"

definition tasks_merge :: "tasks \<Rightarrow> tasks \<Rightarrow> include_decl \<Rightarrow> vars \<Rightarrow> (str, tasks) result" where
  "tasks_merge self other inc included_vars =
     try_bind (try_fold (merge_one inc included_vars) other self)
       (\<lambda>self'. Inr (default_alias inc other self'))"

section \<open>Merging Taskfiles\<close>

definition ERR_INCLUDED_TASKFILES_CANT_HAVE_DOTENVS :: str where
  "ERR_INCLUDED_TASKFILES_CANT_HAVE_DOTENVS = ''task: Included Taskfiles can'' @ [CHR 0x27] @
     ''t have dotenv declarations. Please, move the dotenv declaration to the main Taskfile''"

definition silence :: "tasks \<Rightarrow> tasks" where
  "silence m = map (\<lambda>(k, t). (k, if t_silent t = None then t\<lparr>t_silent := Some True\<rparr> else t)) m"

definition err_versions :: "str option \<Rightarrow> str option \<Rightarrow> str" where
  "err_versions a b = ''task: Taskfiles versions should match. First is '' @
     quoted (case a of Some x \<Rightarrow> x | None \<Rightarrow> []) @ '' but second is '' @
     quoted (case b of Some x \<Rightarrow> x | None \<Rightarrow> [])"

definition taskfile_merge :: "taskfile \<Rightarrow> taskfile \<Rightarrow> include_decl \<Rightarrow> (str, taskfile) result" where
  "taskfile_merge self other inc =
     (if tf_version self \<noteq> tf_version other then Inl (err_versions (tf_version self) (tf_version other))
      else if tf_dotenv other \<noteq> [] then Inl ERR_INCLUDED_TASKFILES_CANT_HAVE_DOTENVS
      else
        let out = (if output_is_set (tf_output other) then tf_output other else tf_output self);
            other_tasks = (if tf_silent other then silence (tf_tasks other) else tf_tasks other);
            vars = vars_merge (tf_vars self) (tf_vars other) (Some inc);
            env = vars_merge (tf_env self) (tf_env other) (Some inc)
        in try_bind (tasks_merge (tf_tasks self) other_tasks inc vars)
             (\<lambda>tasks. Inr (self\<lparr>tf_output := out, tf_vars := vars, tf_env := env, tf_tasks := tasks\<rparr>)))"

section \<open>Lemmas\<close>

lemma im_keys_update [simp]: "im_keys (im_update k f m) = im_keys m"
  by (induction m) (auto simp: im_keys_def im_update_def)

lemma im_ok_keys: "im_ok m \<longleftrightarrow> distinct (im_keys m)"
  by (simp add: im_ok_def im_keys_def)

lemma im_get_update:
  "im_get (im_update k f m) k' = map_option (\<lambda>v. if k' = k then f v else v) (im_get m k')"
  by (induction m) (auto simp: im_get_def im_update_def)

lemma im_keys_default_alias [simp]: "im_keys (default_alias inc other self) = im_keys self"
  by (simp add: default_alias_def)

text \<open>The keys of \<open>other\<close> that a merge brings in, in order.\<close>

definition imported :: "include_decl \<Rightarrow> tasks \<Rightarrow> (str \<times> task) list" where
  "imported inc other = filter (\<lambda>(n, _). n \<notin> set (i_excludes inc)) other"

definition imported_names :: "include_decl \<Rightarrow> tasks \<Rightarrow> str list" where
  "imported_names inc other = map (merged_name inc \<circ> fst) (imported inc other)"

lemma imported_simps [simp]:
  "imported inc [] = []"
  "imported inc ((n, t) # m) = (if n \<in> set (i_excludes inc) then imported inc m else (n, t) # imported inc m)"
  by (simp_all add: imported_def)

text \<open>
  The merge loop in closed form: it succeeds exactly when no imported name is taken, and then
  appends the imported tasks in order.
\<close>

lemma merge_fold:
  "try_fold (merge_one inc iv) other self = Inr r \<longleftrightarrow>
     distinct (imported_names inc other) \<and> set (imported_names inc other) \<inter> set (im_keys self) = {}
     \<and> r = self @ map (\<lambda>(n, t). (merged_name inc n, merged_task inc iv n t)) (imported inc other)"
proof (induction other arbitrary: self)
  case Nil
  then show ?case by (auto simp: imported_names_def)
next
  case (Cons p other)
  obtain n t where p: "p = (n, t)" by (cases p)
  show ?case
  proof (cases "n \<in> set (i_excludes inc)")
    case True
    with Cons p show ?thesis by (simp add: merge_one_def imported_names_def)
  next
    case False
    let ?k = "merged_name inc n" and ?t = "merged_task inc iv n t"
    show ?thesis
    proof (cases "?k \<in> set (im_keys self)")
      case True
      with False p show ?thesis
        by (auto simp: merge_one_def imported_names_def im.get_None)
    next
      case absent: False
      then have ins: "im_insert ?k ?t self = self @ [(?k, ?t)]" by (rule im_insert_absent)
      have "im_keys (self @ [(?k, ?t)]) = im_keys self @ [?k]" by (simp add: im_keys_def)
      with Cons.IH [of "self @ [(?k, ?t)]"] False absent p ins show ?thesis
        by (auto simp: merge_one_def imported_names_def im.get_None)
    qed
  qed
qed

lemma im_keys_append: "im_keys (a @ b) = im_keys a @ im_keys b"
  by (simp add: im_keys_def)

lemma im_keys_imported:
  "im_keys (map (\<lambda>(n, t). (merged_name inc n, merged_task inc iv n t)) xs) = map (merged_name inc \<circ> fst) xs"
  by (induction xs) (auto simp: im_keys_def)

lemma strip_prefix_Nil [simp]: "strip_prefix [] s = Some s"
  by (simp add: strip_prefix_eq_Some)

lemma task_name_with_namespace_plain:
  "\<not> starts_with n '':'' \<Longrightarrow> task_name_with_namespace n ns = ns @ '':'' @ n"
  by (simp add: task_name_with_namespace_def NAMESPACE_SEPARATOR_def strip_prefix_def)

lemma root_not_separator: "\<not> starts_with n '':'' \<Longrightarrow> \<not> starts_with n ROOT_PREFIX"
  by (auto simp: ROOT_PREFIX_def starts_with_iff)

lemma refs_map_refs: "task_refs (map_refs f t) = map f (task_refs t)"
  by (simp add: task_refs_def map_refs_def map_glob_entries_def map_write_tasks_def glob_entries_def
      comp_def option.case_eq_if option.map_sel)

lemma task_refs_update [simp]:
  "task_refs (t\<lparr>t_aliases := a, t_namespace := n, t_task := k\<rparr>) = task_refs t"
  "task_refs (t\<lparr>t_internal := b\<rparr>) = task_refs t"
  "task_refs (t\<lparr>t_dirs := d, t_include_vars := v, t_included_taskfile_vars := w\<rparr>) = task_refs t"
  by (simp_all add: task_refs_def glob_entries_def)

lemma task_refs_merged:
  "task_refs (merged_task inc iv n t) =
     (if i_flatten inc then task_refs t else map (namespace_ref (i_namespace inc)) (task_refs t))"
proof -
  have "task_refs (advanced_task inc iv u) = task_refs u" for u
    by (simp add: advanced_task_def Let_def)
  then show ?thesis
    by (simp add: merged_task_def namespaced_task_def Let_def refs_map_refs)
qed

text \<open>
  How a stored task is named: its key is its namespace and its local name joined by the
  separator, whatever the include path.
\<close>

definition named :: "task \<Rightarrow> str \<Rightarrow> bool" where
  "named t l = (t_full_name t = [] \<and> \<not> starts_with l '':'' \<and> \<not> starts_with (t_namespace t) '':''
     \<and> t_task t = (if t_namespace t = [] then l else t_namespace t @ '':'' @ l))"

lemma local_name_named: "named t l \<Longrightarrow> local_name t = l"
  by (auto simp: named_def local_name_def Let_def strip_prefix_def starts_with_def split: if_splits)

lemma starts_with_colon_append:
  "a \<noteq> [] \<Longrightarrow> starts_with (a @ b) '':'' = starts_with a '':''"
  by (cases a) (auto simp: starts_with_def)

lemma advanced_task_names [simp]:
  "t_full_name (advanced_task inc iv t) = t_full_name t"
  "t_namespace (advanced_task inc iv t) = t_namespace t"
  "t_task (advanced_task inc iv t) = t_task t"
  by (simp_all add: advanced_task_def Let_def)

lemma map_refs_full_name [simp]: "t_full_name (map_refs f t) = t_full_name t"
  by (simp add: map_refs_def map_glob_entries_def)

lemma named_merged:
  assumes "named t l" "i_namespace inc \<noteq> []" "\<not> starts_with (i_namespace inc) '':''"
  shows "named (merged_task inc iv (t_task t) t) l"
proof (cases "i_flatten inc")
  case True
  with assms show ?thesis by (simp add: merged_task_def named_def)
next
  case False
  have "\<not> starts_with (t_task t) '':''"
    using assms(1) by (auto simp: named_def starts_with_colon_append split: if_splits)
  then show ?thesis using assms False
    by (auto simp: merged_task_def namespaced_task_def named_def Let_def NAMESPACE_SEPARATOR_def
        task_name_with_namespace_plain starts_with_colon_append)
qed

lemma tasks_merge_shape:
  assumes "tasks_merge self other inc iv = Inr r"
  shows "distinct (imported_names inc other) \<and> set (imported_names inc other) \<inter> set (im_keys self) = {}
    \<and> r = default_alias inc other
      (self @ map (\<lambda>(n, t). (merged_name inc n, merged_task inc iv n t)) (imported inc other))"
  using assms by (auto simp: tasks_merge_def merge_fold)

lemma tasks_merge_result:
  assumes "im_ok self" "tasks_merge self other inc iv = Inr r"
  shows "im_keys r = im_keys self @ imported_names inc other \<and> im_ok r"
proof -
  have "im_keys r = im_keys self @ imported_names inc other"
    using tasks_merge_shape [OF assms(2)] by (simp add: im_keys_append im_keys_imported imported_names_def)
  with tasks_merge_shape [OF assms(2)] assms(1) show ?thesis by (auto simp: im_ok_keys)
qed

lemma default_alias_mem:
  assumes "(k, t) \<in> set m"
  shows "\<exists>t'. (k, t') \<in> set (default_alias inc other m) \<and> task_refs t' = task_refs t"
  using assms unfolding default_alias_def im_update_def
  by (force simp: task_refs_def glob_entries_def)

lemma tasks_merge_mem:
  assumes "tasks_merge self other inc iv = Inr r" "(n, src) \<in> set other" "n \<notin> set (i_excludes inc)"
  shows "\<exists>t. (merged_name inc n, t) \<in> set r \<and> task_refs t = task_refs (merged_task inc iv n src)"
proof -
  have "(merged_name inc n, merged_task inc iv n src) \<in> set
      (self @ map (\<lambda>(n, t). (merged_name inc n, merged_task inc iv n t)) (imported inc other))"
    using assms(2,3) by (force simp: imported_def)
  from default_alias_mem [OF this] tasks_merge_shape [OF assms(1)] show ?thesis by blast
qed

lemma tasks_merge_spec:
  assumes "im_ok self"
  shows "(case tasks_merge self other inc iv of
      Inr r \<Rightarrow> im_keys r = im_keys self @ imported_names inc other \<and> im_ok r
    | Inl _ \<Rightarrow> \<not> distinct (imported_names inc other)
        \<or> set (imported_names inc other) \<inter> set (im_keys self) \<noteq> {})"
proof (cases "tasks_merge self other inc iv")
  case (Inl e)
  then have "\<nexists>r. try_fold (merge_one inc iv) other self = Inr r"
    by (auto simp: tasks_merge_def try_bind_eq_Inl)
  with Inl show ?thesis by (auto simp: merge_fold)
next
  case (Inr r)
  then show ?thesis using tasks_merge_result [OF assms Inr] by simp
qed

section \<open>Properties\<close>

text \<open>
  C18: merging the tasks of an included file. It succeeds exactly when the imported names are
  new and distinct; then the existing keys come first and the imported ones follow in their
  order, and no key is taken twice.
\<close>

theorem tasks_merge_keys:
  assumes "im_ok self"
  shows "(case tasks_merge self other inc iv of
      Inr r \<Rightarrow> im_keys r = im_keys self @ imported_names inc other \<and> im_ok r
    | Inl _ \<Rightarrow> \<not> distinct (imported_names inc other)
        \<or> set (imported_names inc other) \<inter> set (im_keys self) \<noteq> {})"
  by (rule tasks_merge_spec [OF assms])

definition sample_include :: include_decl where
  "sample_include = default_include\<lparr>i_namespace := ''lib'', i_excludes := [''secret'']\<rparr>"

definition sample_lib :: tasks where
  "sample_lib = [(''build'', default_task\<lparr>t_task := ''build'', t_deps := [default_dep\<lparr>d_task := ''lint''\<rparr>]\<rparr>),
     (''lint'', default_task\<lparr>t_task := ''lint''\<rparr>), (''secret'', default_task\<lparr>t_task := ''secret''\<rparr>)]"

lemma sample_names: "imported_names sample_include sample_lib = [''lib:build'', ''lib:lint'']"
  by (simp add: imported_names_def imported_def sample_include_def sample_lib_def merged_name_def
      default_include_def task_name_with_namespace_def NAMESPACE_SEPARATOR_def strip_prefix_def starts_with_def)

theorem tasks_merge_keys_witness:
  "\<exists>r. tasks_merge [(''all'', default_task)] sample_lib sample_include [] = Inr r
     \<and> im_keys r = [''all'', ''lib:build'', ''lib:lint'']"
  using tasks_merge_keys [where self = "[(''all'', default_task)]" and other = sample_lib
      and inc = sample_include and iv = "[]"]
  by (simp add: im_ok_def sample_names im_keys_def split: sum.splits)

text \<open>
  C13: references survive an include. A reference of an included task to a task of its own
  file names, after the merge, the key that task is stored under; and a root reference
  \<open>::name\<close> passes every include unchanged and resolves to \<open>name\<close> at the root.
\<close>

theorem merged_references_resolve:
  assumes "im_ok self" "tasks_merge self other inc iv = Inr r"
    and "(n, src) \<in> set other" "n \<notin> set (i_excludes inc)"
    and "i < length (task_refs src)" "task_refs src ! i = ref"
    and "ref \<in> set (im_keys other)" "ref \<notin> set (i_excludes inc)" "ref \<noteq> []" "\<not> starts_with ref '':''"
  shows "(\<exists>t. im_get r (merged_name inc n) = Some t \<and> task_refs t ! i = merged_name inc ref)
    \<and> merged_name inc ref \<in> set (im_keys r)
    \<and> ref_with_namespace (ROOT_PREFIX @ m) ns = ROOT_PREFIX @ m \<and> resolve (ROOT_PREFIX @ m) = m"
proof (intro conjI)
  have keys: "im_keys r = im_keys self @ imported_names inc other" "im_ok r"
    using tasks_merge_result [OF assms(1,2)] by auto
  obtain t where t: "(merged_name inc n, t) \<in> set r" "task_refs t = task_refs (merged_task inc iv n src)"
    using tasks_merge_mem [OF assms(2,3,4)] by blast
  have "task_refs t ! i = merged_name inc ref"
    using t(2) assms(5,6,9,10)
    by (simp add: task_refs_merged namespace_ref_def ref_with_namespace_def root_not_separator merged_name_def)
  with t(1) keys(2) show "\<exists>t. im_get r (merged_name inc n) = Some t \<and> task_refs t ! i = merged_name inc ref"
    by (blast intro: im_get_eq)
  show "merged_name inc ref \<in> set (im_keys r)"
    using assms(7,8) keys(1) by (force simp: imported_names_def imported_def im_keys_def)
  show "ref_with_namespace (ROOT_PREFIX @ m) ns = ROOT_PREFIX @ m"
    by (simp add: ref_with_namespace_def)
  show "resolve (ROOT_PREFIX @ m) = m"
    using strip_prefix_eq_Some [of ROOT_PREFIX "ROOT_PREFIX @ m" m] by (simp add: resolve_def)
qed

theorem merged_references_resolve_witness:
  "\<exists>r t. tasks_merge [] sample_lib sample_include [] = Inr r
     \<and> im_get r (merged_name sample_include ''build'') = Some t
     \<and> task_refs t ! 0 = merged_name sample_include ''lint''"
proof -
  obtain r where r: "tasks_merge [] sample_lib sample_include [] = Inr r"
    using tasks_merge_spec [where self = "[]" and other = sample_lib and inc = sample_include and iv = "[]"]
    by (auto simp: im_ok_def sample_names split: sum.splits)
  let ?b = "default_task\<lparr>t_task := ''build'', t_deps := [default_dep\<lparr>d_task := ''lint''\<rparr>]\<rparr>"
  have refs: "task_refs ?b = [''lint'']"
    by (simp add: task_refs_def glob_entries_def default_task_def)
  have "\<exists>t. im_get r (merged_name sample_include ''build'') = Some t
      \<and> task_refs t ! 0 = merged_name sample_include ''lint''"
    using merged_references_resolve [OF _ r, of "''build''" ?b 0 "''lint''"] refs
    by (simp add: im_ok_def sample_lib_def sample_include_def im_keys_def starts_with_def)
  with r show ?thesis by blast
qed

text \<open>
  C19: the identity of a task does not depend on how its file was included. Through any merge
  (namespaced or flattened, at any depth) its local name, the name under which its state is
  kept, stays the same.
\<close>

theorem local_name_include_invariant:
  assumes "named t l" "i_namespace inc \<noteq> []" "\<not> starts_with (i_namespace inc) '':''"
  shows "named (merged_task inc iv (t_task t) t) l
    \<and> local_name (merged_task inc iv (t_task t) t) = local_name t"
  using named_merged [OF assms] assms(1) by (simp add: local_name_named)

theorem local_name_include_invariant_witness:
  "local_name (merged_task (default_include\<lparr>i_namespace := ''app''\<rparr>) []
      ''lib:build'' (default_task\<lparr>t_task := ''lib:build'', t_namespace := ''lib''\<rparr>)) = ''build''"
proof -
  let ?t = "default_task\<lparr>t_task := ''lib:build'', t_namespace := ''lib''\<rparr>"
  have n: "named ?t ''build''" by (simp add: named_def default_task_def starts_with_def)
  from local_name_include_invariant [OF n, of "default_include\<lparr>i_namespace := ''app''\<rparr>" "[]"]
  show ?thesis using local_name_named [OF n] by (simp add: starts_with_def)
qed

end
