(* ===== verification/Graph.thy ===== *)
theory Graph
  imports Merge
begin

text \<open>
  The graph of a Taskfile and its includes (\<open>ast/graph.rs\<close>): vertices in insertion order,
  edges by source, the cycle check on a new edge, Kahn's topological sort and the merge that
  folds every included file into the ones that include it. The order in which the edge map is
  walked is the order of its association list; the counts the sort takes from it do not
  depend on that order. \<open>in_degree\<close> lookups all default to 0, so the map is a total
  function.
\<close>

section \<open>Definitions\<close>

record taskfile_vertex =
  vx_uri :: str
  vx_taskfile :: taskfile

record edge =
  e_source :: str
  e_target :: str
  e_includes :: "include_decl list"

record taskfile_graph =
  tg_vertices :: "(str, taskfile_vertex) index_map"
  tg_edges :: "(str, edge list) index_map"
  tg_order :: "str list"

datatype graph_error = EdgeCycle str str | Cycle | VertexNotFound str | EmptyGraph | MergeError str

definition empty_graph :: taskfile_graph where
  "empty_graph = \<lparr>tg_vertices = [], tg_edges = [], tg_order = []\<rparr>"

definition add_vertex :: "taskfile_vertex \<Rightarrow> taskfile_graph \<Rightarrow> taskfile_graph" where
  "add_vertex v g =
     g\<lparr>tg_vertices := im_insert (vx_uri v) v (tg_vertices g),
       tg_order := (if im_get (tg_vertices g) (vx_uri v) = None then tg_order g @ [vx_uri v]
                    else tg_order g)\<rparr>"

definition vertex :: "taskfile_graph \<Rightarrow> str \<Rightarrow> taskfile_vertex option" where
  "vertex g uri = im_get (tg_vertices g) uri"

definition out_edges :: "taskfile_graph \<Rightarrow> str \<Rightarrow> edge list" where
  "out_edges g n = (case im_get (tg_edges g) n of Some es \<Rightarrow> es | None \<Rightarrow> [])"

text \<open>The edges of one node in the search: \<open>None\<close> when one of them ends at \<open>to\<close>.\<close>

fun push_targets :: "str \<Rightarrow> edge list \<Rightarrow> str list \<Rightarrow> str list option" where
  "push_targets to [] stack = Some stack"
| "push_targets to (e # es) stack =
     (if e_target e = to then None else push_targets to es (e_target e # stack))"

lemma push_targets_eq:
  "push_targets to es stack =
     (if to \<in> set (map e_target es) then None else Some (rev (map e_target es) @ stack))"
  by (induction es arbitrary: stack) auto

function reach_loop :: "taskfile_graph \<Rightarrow> str \<Rightarrow> str list \<Rightarrow> str list \<Rightarrow> bool" where
  "reach_loop g to [] seen = False"
| "reach_loop g to (node # stack) seen =
     (if node \<in> set seen then reach_loop g to stack seen
      else
        (case push_targets to (out_edges g node) stack of
           None \<Rightarrow> True
         | Some stack' \<Rightarrow> reach_loop g to stack' (node # seen)))"
  by pat_completeness auto

termination
proof (relation "inv_image (less_than <*lex*> less_than)
    (\<lambda>(g, to, stack, seen). (card (set (im_keys (tg_edges g)) - set seen), length stack))", goal_cases)
  case (3 g to node stack seen stack')
  show ?case
  proof (cases "node \<in> set (im_keys (tg_edges g))")
    case True
    then have "card (set (im_keys (tg_edges g)) - set (node # seen)) < card (set (im_keys (tg_edges g)) - set seen)"
      using 3(1) by (intro psubset_card_mono) auto
    then show ?thesis by simp
  next
    case False
    then have "out_edges g node = []" by (simp add: out_edges_def im.get_None option.case_eq_if)
    with 3(2) have "stack' = stack" by simp
    moreover have "set (im_keys (tg_edges g)) - set (node # seen) = set (im_keys (tg_edges g)) - set seen"
      using False by auto
    ultimately show ?thesis by simp
  qed
qed auto

definition reaches :: "taskfile_graph \<Rightarrow> str \<Rightarrow> str \<Rightarrow> bool" where
  "reaches g from to = (if from = to then True else reach_loop g to [from] [])"

definition add_edge ::
  "str \<Rightarrow> str \<Rightarrow> include_decl list \<Rightarrow> taskfile_graph \<Rightarrow> (graph_error, taskfile_graph) result" where
  "add_edge source target includes' g =
     (if reaches g target source then Inl (EdgeCycle source target)
      else Inr (g\<lparr>tg_edges := im_insert source (out_edges g source @
             [\<lparr>e_source = source, e_target = target, e_includes = includes'\<rparr>]) (tg_edges g)\<rparr>))"

definition all_edges :: "taskfile_graph \<Rightarrow> edge list" where
  "all_edges g = concat (map snd (tg_edges g))"

fun in_degree :: "edge list \<Rightarrow> (str \<Rightarrow> nat) \<Rightarrow> str \<Rightarrow> nat" where
  "in_degree [] d = d"
| "in_degree (e # es) d = in_degree es (d(e_target e := d (e_target e) + 1))"

fun relax :: "edge list \<Rightarrow> str list \<Rightarrow> (str \<Rightarrow> nat) \<Rightarrow> str list \<times> (str \<Rightarrow> nat)" where
  "relax [] queue d = (queue, d)"
| "relax (e # es) queue d =
     (let degree = d (e_target e) - 1
      in relax es (if degree = 0 then queue @ [e_target e] else queue) (d(e_target e := degree)))"

partial_function (option) kahn ::
  "taskfile_graph \<Rightarrow> str list \<Rightarrow> str list \<Rightarrow> (str \<Rightarrow> nat) \<Rightarrow> str list option" where
  "kahn g queue out d = (case queue of
     [] \<Rightarrow> Some out
   | node # rest \<Rightarrow>
       (let (queue', d') = relax (out_edges g node) rest d
        in kahn g queue' (out @ [node]) d'))"

declare kahn.simps [code]

definition topological_sort :: "taskfile_graph \<Rightarrow> (graph_error, str list) result option" where
  "topological_sort g =
     (let d = in_degree (all_edges g) (\<lambda>_. 0)
      in map_option (\<lambda>out. if length out \<noteq> length (tg_order g) then Inl Cycle else Inr out)
           (kahn g (filter (\<lambda>u. d u = 0) (tg_order g)) [] d))"

definition predecessors :: "taskfile_graph \<Rightarrow> str \<Rightarrow> edge list" where
  "predecessors g uri = filter (\<lambda>e. e_target e = uri) (all_edges g)"

definition merge_include ::
  "taskfile \<Rightarrow> include_decl \<Rightarrow> taskfile \<Rightarrow> (graph_error, taskfile) result" where
  "merge_include included inc base = map_sum MergeError id (taskfile_merge base included inc)"

definition merge_edge :: "taskfile \<Rightarrow> edge \<Rightarrow> taskfile_graph \<Rightarrow> (graph_error, taskfile_graph) result" where
  "merge_edge included e g = (case vertex g (e_source e) of
     None \<Rightarrow> Inl (VertexNotFound (e_source e))
   | Some vx \<Rightarrow>
       try_bind (try_fold (merge_include included) (e_includes e) (vx_taskfile vx))
         (\<lambda>base. Inr (g\<lparr>tg_vertices := im_update (e_source e)
            (\<lambda>v. v\<lparr>vx_taskfile := base\<rparr>) (tg_vertices g)\<rparr>)))"

definition merge_vertex :: "(str \<Rightarrow> edge list) \<Rightarrow> str \<Rightarrow> taskfile_graph \<Rightarrow> (graph_error, taskfile_graph) result" where
  "merge_vertex preds hash g = (case vertex g hash of
     None \<Rightarrow> Inl (VertexNotFound hash)
   | Some vx \<Rightarrow> try_fold (merge_edge (vx_taskfile vx)) (preds hash) g)"

definition merge_hashes :: "taskfile_graph \<Rightarrow> str list \<Rightarrow> (graph_error, taskfile) result" where
  "merge_hashes g hashes =
     try_bind (try_fold (merge_vertex (predecessors g)) (rev (tl hashes)) g) (\<lambda>g'.
       case hashes of
         [] \<Rightarrow> Inl EmptyGraph
       | root_hash # _ \<Rightarrow> (case vertex g' root_hash of
           None \<Rightarrow> Inl (VertexNotFound root_hash)
         | Some vx \<Rightarrow> Inr ((vx_taskfile vx)\<lparr>tf_tasks := resolve_root_refs (tf_tasks (vx_taskfile vx))\<rparr>)))"

definition graph_merge :: "taskfile_graph \<Rightarrow> (graph_error, taskfile) result option" where
  "graph_merge g = map_option (\<lambda>r. try_bind r (merge_hashes g)) (topological_sort g)"

section \<open>Reachability\<close>

definition edge_rel :: "taskfile_graph \<Rightarrow> (str \<times> str) set" where
  "edge_rel g = {(n, e_target e) | n e. e \<in> set (out_edges g n)}"

lemma edge_rel_iff: "(n, m) \<in> edge_rel g \<longleftrightarrow> m \<in> e_target ` set (out_edges g n)"
  by (auto simp: edge_rel_def)

text \<open>
  The invariant of the search: everything a seen node points to is seen or stacked, and is not
  the node looked for.
\<close>

definition search_inv :: "taskfile_graph \<Rightarrow> str \<Rightarrow> str list \<Rightarrow> str list \<Rightarrow> bool" where
  "search_inv g to stack seen =
     (\<forall>n\<in>set seen. \<forall>m. (n, m) \<in> edge_rel g \<longrightarrow> m \<noteq> to \<and> m \<in> set seen \<union> set stack)"

lemma search_inv_closed:
  assumes "search_inv g to [] seen" "(n, m) \<in> (edge_rel g)\<^sup>+" "n \<in> set seen"
  shows "m \<noteq> to \<and> m \<in> set seen"
  using assms(2,3,1)
proof (induction rule: trancl_induct)
  case (base m)
  then show ?case by (auto simp: search_inv_def)
next
  case (step m m')
  then show ?case by (auto simp: search_inv_def)
qed

lemma reach_loop_iff:
  "search_inv g to stack seen \<Longrightarrow>
     reach_loop g to stack seen \<longleftrightarrow> (\<exists>n\<in>set seen \<union> set stack. (n, to) \<in> (edge_rel g)\<^sup>+)"
proof (induction g to stack seen rule: reach_loop.induct)
  case (1 g to seen)
  then show ?case using search_inv_closed [of g to seen] by auto
next
  case (2 g to node stack seen)
  show ?case
  proof (cases "node \<in> set seen")
    case True
    moreover have "search_inv g to stack seen"
      using 2(3) True by (auto simp: search_inv_def)
    ultimately show ?thesis using 2(1) by auto
  next
    case False
    show ?thesis
    proof (cases "to \<in> e_target ` set (out_edges g node)")
      case True
      then have "(node, to) \<in> (edge_rel g)\<^sup>+" by (auto simp: edge_rel_iff)
      with False True show ?thesis by (auto simp: push_targets_eq)
    next
      case not_to: False
      let ?st = "rev (map e_target (out_edges g node)) @ stack"
      have pt: "push_targets to (out_edges g node) stack = Some ?st"
        using not_to by (simp add: push_targets_eq)
      have inv: "search_inv g to ?st (node # seen)"
        using 2(3) not_to by (auto simp: search_inv_def edge_rel_iff)
      have via: "(node, to) \<in> (edge_rel g)\<^sup>+"
        if "x \<in> set (out_edges g node)" "(e_target x, to) \<in> (edge_rel g)\<^sup>+" for x
        by (rule trancl_into_trancl2 [OF _ that(2)]) (use that(1) in \<open>auto simp: edge_rel_iff\<close>)
      have "(\<exists>n\<in>set (node # seen) \<union> set ?st. (n, to) \<in> (edge_rel g)\<^sup>+) \<longleftrightarrow>
            (\<exists>n\<in>set seen \<union> set (node # stack). (n, to) \<in> (edge_rel g)\<^sup>+)"
        using via by auto
      with 2(2) [OF False pt inv] False pt show ?thesis by simp
    qed
  qed
qed

lemma reaches_iff: "reaches g from to \<longleftrightarrow> (from, to) \<in> (edge_rel g)\<^sup>*"
  using reach_loop_iff [of g to "[from]" "[]"]
  by (auto simp: reaches_def search_inv_def rtrancl_eq_or_trancl)

lemma out_edges_insert:
  "out_edges (g\<lparr>tg_edges := im_insert s es (tg_edges g)\<rparr>) n = (if n = s then es else out_edges g n)"
  by (simp add: out_edges_def im_get_insert)

lemma edge_rel_add_edge:
  assumes "add_edge s t incs g = Inr g'"
  shows "edge_rel g' = insert (s, t) (edge_rel g)"
proof -
  have "(n, m) \<in> edge_rel g' \<longleftrightarrow> (n, m) = (s, t) \<or> (n, m) \<in> edge_rel g" for n m
    using assms by (auto simp: add_edge_def edge_rel_iff out_edges_insert split: if_splits)
  then show ?thesis by auto
qed

lemma acyclic_add_edge:
  assumes "add_edge s t incs g = Inr g'" "acyclic (edge_rel g)"
  shows "acyclic (edge_rel g')"
  using assms edge_rel_add_edge [OF assms(1)]
  by (auto simp: acyclic_insert add_edge_def reaches_iff split: if_splits)

section \<open>The topological sort\<close>

definition count_into :: "edge list \<Rightarrow> str \<Rightarrow> nat" where
  "count_into es v = length (filter (\<lambda>e. e_target e = v) es)"

lemma count_into_simps [simp]:
  "count_into [] v = 0"
  "count_into (e # es) v = (if e_target e = v then Suc (count_into es v) else count_into es v)"
  by (simp_all add: count_into_def)

lemma in_degree_count: "in_degree es d v = d v + count_into es v"
  by (induction es arbitrary: d) auto

lemma relax_result:
  assumes "\<And>v. count_into es v \<le> d v"
  shows "\<exists>new. relax es queue d = (queue @ new, \<lambda>v. d v - count_into es v) \<and> distinct new
    \<and> set new = {v. count_into es v > 0 \<and> d v = count_into es v}"
  using assms
proof (induction es arbitrary: queue d)
  case (Cons e es)
  let ?t = "e_target e" and ?d = "d(e_target e := d (e_target e) - 1)"
  let ?q = "if d ?t - 1 = 0 then queue @ [?t] else queue"
  have le: "count_into es v \<le> ?d v" for v using Cons.prems [of v] by (auto split: if_splits)
  from Cons.IH [OF le, of ?q] obtain new where
    new: "relax es ?q ?d = (?q @ new, \<lambda>v. ?d v - count_into es v)" "distinct new"
      "set new = {v. count_into es v > 0 \<and> ?d v = count_into es v}" by blast
  have d: "(\<lambda>v. ?d v - count_into es v) = (\<lambda>v. d v - count_into (e # es) v)" by auto
  have pos: "d ?t \<ge> 1" using Cons.prems [of ?t] by simp
  show ?case
  proof (cases "d ?t - 1 = 0")
    case True
    with le [of ?t] have z: "count_into es ?t = 0" by simp
    have "v \<in> set (?t # new) \<longleftrightarrow> count_into (e # es) v > 0 \<and> d v = count_into (e # es) v" for v
      using new(3) z True pos by (cases "v = ?t") auto
    then have s: "set (?t # new) = {v. count_into (e # es) v > 0 \<and> d v = count_into (e # es) v}" by blast
    have "?t \<notin> set new" using new(3) z by simp
    with new(1,2) True d s show ?thesis
      by (intro exI [of _ "?t # new"]) (simp add: Let_def)
  next
    case False
    have "v \<in> set new \<longleftrightarrow> count_into (e # es) v > 0 \<and> d v = count_into (e # es) v" for v
      using new(3) False pos by (cases "v = ?t") auto
    then have s: "set new = {v. count_into (e # es) v > 0 \<and> d v = count_into (e # es) v}" by blast
    with new(1,2) False d show ?thesis
      by (intro exI [of _ new]) (simp add: Let_def)
  qed
qed simp

definition wf_graph :: "taskfile_graph \<Rightarrow> bool" where
  "wf_graph g = (im_ok (tg_vertices g) \<and> im_keys (tg_vertices g) = tg_order g \<and> im_ok (tg_edges g)
     \<and> (\<forall>(n, es)\<in>set (tg_edges g). \<forall>e\<in>set es. e_source e = n)
     \<and> (\<forall>e\<in>set (all_edges g). e_source e \<in> set (tg_order g) \<and> e_target e \<in> set (tg_order g)))"

lemma filter_source_out_edges:
  assumes "im_ok (tg_edges g)" "\<forall>(n, es)\<in>set (tg_edges g). \<forall>e\<in>set es. e_source e = n"
  shows "filter (\<lambda>e. e_source e = n) (all_edges g) = out_edges g n"
proof -
  have "filter (\<lambda>e. e_source e = n) (concat (map snd m)) = (case map_of m n of Some es \<Rightarrow> es | None \<Rightarrow> [])"
    if "distinct (map fst m)" "\<forall>(n, es)\<in>set m. \<forall>e\<in>set es. e_source e = n" for m
    using that
  proof (induction m)
    case (Cons p m)
    obtain k es where p: "p = (k, es)" by (cases p)
    have "filter (\<lambda>e. e_source e = n) es = (if k = n then es else [])"
      using Cons.prems(2) p by (auto simp: filter_id_conv filter_empty_conv)
    moreover have "k = n \<Longrightarrow> map_of m n = None"
      using Cons.prems(1) p by (auto simp: map_of_eq_None_iff)
    ultimately show ?case using Cons p by (auto split: option.splits)
  qed simp
  with assms show ?thesis by (simp add: all_edges_def out_edges_def im_ok_def im_get_def)
qed

lemma edge_rel_all_edges:
  assumes "wf_graph g"
  shows "edge_rel g = (\<lambda>e. (e_source e, e_target e)) ` set (all_edges g)"
proof -
  have f: "filter (\<lambda>e. e_source e = n) (all_edges g) = out_edges g n" for n
    using assms by (intro filter_source_out_edges) (auto simp: wf_graph_def)
  have "e \<in> set (out_edges g n) \<longleftrightarrow> e \<in> set (all_edges g) \<and> e_source e = n" for e n
    unfolding f [of n, symmetric] by auto
  then show ?thesis by (auto simp: edge_rel_def)
qed

text \<open>
  The invariant of Kahn's loop: the degree of a node counts its edges from nodes not yet
  sorted, the nodes of degree 0 are the ones sorted or queued, and every edge into one of them
  comes from a node in front of it.
\<close>

definition open_into :: "taskfile_graph \<Rightarrow> str list \<Rightarrow> str \<Rightarrow> nat" where
  "open_into g out v = length (filter (\<lambda>e. e_target e = v \<and> e_source e \<notin> set out) (all_edges g))"

definition ordered :: "taskfile_graph \<Rightarrow> str list \<Rightarrow> bool" where
  "ordered g xs = (\<forall>a v b. xs = a @ v # b \<longrightarrow> (\<forall>e\<in>set (all_edges g). e_target e = v \<longrightarrow> e_source e \<in> set a))"

definition kahn_inv :: "taskfile_graph \<Rightarrow> str list \<Rightarrow> str list \<Rightarrow> (str \<Rightarrow> nat) \<Rightarrow> bool" where
  "kahn_inv g queue out d = (distinct (out @ queue) \<and> d = open_into g out
     \<and> set (out @ queue) = {v \<in> set (tg_order g). d v = 0} \<and> ordered g (out @ queue))"

lemma open_into_split:
  assumes "wf_graph g" "n \<notin> set out"
  shows "open_into g out v = count_into (out_edges g n) v + open_into g (out @ [n]) v"
proof -
  have "out_edges g n = filter (\<lambda>e. e_source e = n) (all_edges g)"
    using assms(1) by (intro filter_source_out_edges [symmetric]) (auto simp: wf_graph_def)
  moreover have "length (filter (\<lambda>e. e_target e = v \<and> e_source e \<notin> set out) es) =
      count_into (filter (\<lambda>e. e_source e = n) es) v
      + length (filter (\<lambda>e. e_target e = v \<and> e_source e \<notin> set (out @ [n])) es)" for es
    using assms(2) by (induction es) auto
  ultimately show ?thesis by (simp add: open_into_def)
qed

lemma ordered_append:
  assumes "ordered g xs" "\<And>e. e \<in> set (all_edges g) \<Longrightarrow> e_target e \<in> set new \<Longrightarrow> e_source e \<in> set xs"
  shows "ordered g (xs @ new)"
  unfolding ordered_def
proof (intro allI impI ballI)
  fix a v b e assume eq: "xs @ new = a @ v # b" and e: "e \<in> set (all_edges g)" "e_target e = v"
  from eq obtain us where "xs = a @ us \<and> us @ new = v # b \<or> xs @ us = a \<and> new = us @ v # b"
    unfolding append_eq_append_conv2 by blast
  then show "e_source e \<in> set a"
  proof
    assume us: "xs = a @ us \<and> us @ new = v # b"
    show ?thesis
    proof (cases us)
      case Nil
      with us assms(2) [OF e(1)] e(2) show ?thesis by auto
    next
      case (Cons u us')
      with us assms(1) e show ?thesis by (auto simp: ordered_def)
    qed
  next
    assume "xs @ us = a \<and> new = us @ v # b"
    with assms(2) [OF e(1)] e(2) show ?thesis by auto
  qed
qed

lemma kahn_inv_init:
  assumes "wf_graph g"
  shows "kahn_inv g (filter (\<lambda>u. in_degree (all_edges g) (\<lambda>_. 0) u = 0) (tg_order g)) []
    (in_degree (all_edges g) (\<lambda>_. 0))"
proof -
  have d: "in_degree (all_edges g) (\<lambda>_. 0) = open_into g []"
    by (rule ext) (simp add: in_degree_count open_into_def count_into_def)
  have "ordered g (filter (\<lambda>u. open_into g [] u = 0) (tg_order g))"
    unfolding ordered_def
  proof (intro allI impI ballI)
    fix a v b e assume eq: "filter (\<lambda>u. open_into g [] u = 0) (tg_order g) = a @ v # b"
      and e: "e \<in> set (all_edges g)" "e_target e = v"
    have "v \<in> set (filter (\<lambda>u. open_into g [] u = 0) (tg_order g))" using eq by simp
    then have "open_into g [] v = 0" by simp
    with e show "e_source e \<in> set a" by (auto simp: open_into_def filter_empty_conv)
  qed
  moreover have "distinct (tg_order g)" using assms by (auto simp: wf_graph_def im_ok_def im_keys_def)
  ultimately show ?thesis unfolding kahn_inv_def d by auto
qed

lemma kahn_inv_step:
  assumes g: "wf_graph g" and inv: "kahn_inv g (n # rest) out d"
    and r: "relax (out_edges g n) rest d = (queue', d')"
  shows "kahn_inv g queue' (out @ [n]) d'"
proof -
  have n: "n \<notin> set out" and d: "d = open_into g out" and zero: "set (out @ n # rest) = {v \<in> set (tg_order g). d v = 0}"
    and dist: "distinct (out @ n # rest)" and ord: "ordered g (out @ n # rest)"
    using inv by (auto simp: kahn_inv_def)
  note split = open_into_split [OF g n]
  have le: "count_into (out_edges g n) v \<le> d v" for v unfolding d split [of v] by simp
  from relax_result [OF le, of rest] r obtain new where
    q: "queue' = rest @ new" and d': "d' = (\<lambda>v. d v - count_into (out_edges g n) v)"
    and new: "distinct new" "set new = {v. count_into (out_edges g n) v > 0 \<and> d v = count_into (out_edges g n) v}"
    by auto
  have d'_eq: "d' = open_into g (out @ [n])" unfolding d' d split by simp
  have "e_target e \<in> set (tg_order g)" if "e \<in> set (out_edges g n)" for e
  proof -
    have "out_edges g n = filter (\<lambda>e. e_source e = n) (all_edges g)"
      using g by (intro filter_source_out_edges [symmetric]) (auto simp: wf_graph_def)
    with that g show ?thesis by (auto simp: wf_graph_def)
  qed
  then have new_order: "set new \<subseteq> set (tg_order g)"
    unfolding new(2) count_into_def by (auto simp: filter_empty_conv)
  have zero': "set (out @ n # rest @ new) = {v \<in> set (tg_order g). d' v = 0}"
  proof -
    have "v \<in> set (out @ n # rest @ new) \<longleftrightarrow> v \<in> set (tg_order g) \<and> d' v = 0" for v
    proof -
      have "v \<in> set (out @ n # rest) \<longleftrightarrow> v \<in> set (tg_order g) \<and> d v = 0" using zero by blast
      moreover have "v \<in> set new \<longleftrightarrow> count_into (out_edges g n) v > 0 \<and> d v = count_into (out_edges g n) v"
        using new(2) by blast
      ultimately show ?thesis using le [of v] new_order unfolding d' by auto
    qed
    then show ?thesis by blast
  qed
  have src: "e_source e \<in> set (out @ n # rest)" if e: "e \<in> set (all_edges g)" "e_target e \<in> set new" for e
  proof -
    have "open_into g (out @ [n]) (e_target e) = 0"
      using e(2) new(2) d'_eq unfolding d' by (metis (mono_tags, lifting) diff_self_eq_0 mem_Collect_eq)
    with e(1) show ?thesis by (auto simp: open_into_def filter_empty_conv)
  qed
  have "set new \<inter> set (out @ n # rest) = {}" using zero new(2) by auto
  then show ?thesis
    unfolding kahn_inv_def q d'_eq [symmetric]
    using dist new(1) zero' d'_eq ordered_append [OF ord src] by auto
qed

lemma kahn_returns:
  assumes "wf_graph g" "kahn_inv g queue out d"
  shows "\<exists>r. kahn g queue out d = Some r \<and> kahn_inv g [] r (open_into g r)"
  using assms(2)
proof (induction "card (set (tg_order g) - set out)" arbitrary: queue out d rule: less_induct)
  case less
  show ?case
  proof (cases queue)
    case Nil
    with less.prems show ?thesis by (subst kahn.simps) (auto simp: kahn_inv_def)
  next
    case (Cons n rest)
    obtain queue' d' where r: "relax (out_edges g n) rest d = (queue', d')" by fastforce
    have "n \<in> set (tg_order g) - set out" using less.prems Cons by (auto simp: kahn_inv_def)
    then have "card (set (tg_order g) - set (out @ [n])) < card (set (tg_order g) - set out)"
      by (intro psubset_card_mono) auto
    from less.hyps [OF this kahn_inv_step [OF assms(1) less.prems [unfolded Cons] r]] r Cons
    show ?thesis by (subst kahn.simps) simp
  qed
qed

lemma takeWhile_before: "n \<in> set a \<Longrightarrow> length (takeWhile (\<lambda>x. x \<noteq> n) a) < length a"
  by (induction a) auto

lemma ordered_acyclic:
  assumes "wf_graph g" "ordered g xs" "set xs = set (tg_order g)"
  shows "acyclic (edge_rel g)"
proof -
  let ?idx = "\<lambda>v. length (takeWhile (\<lambda>x. x \<noteq> v) xs)"
  have "edge_rel g \<subseteq> inv_image less_than ?idx"
  proof (rule subrelI)
    fix n m assume "(n, m) \<in> edge_rel g"
    then obtain e where e: "e \<in> set (all_edges g)" "n = e_source e" "m = e_target e"
      unfolding edge_rel_all_edges [OF assms(1)] by auto
    then have "m \<in> set xs" using assms(1,3) by (auto simp: wf_graph_def)
    then obtain a b where xs: "xs = a @ m # b" "m \<notin> set a" by (metis split_list_first)
    with assms(2) e have "n \<in> set a" by (auto simp: ordered_def)
    then have "?idx n < length a" unfolding xs(1)
      by (subst takeWhile_append1) (auto intro: takeWhile_before)
    moreover have "takeWhile (\<lambda>x. x \<noteq> m) a = a" using xs(2) by (auto simp: takeWhile_eq_all_conv)
    then have "?idx m = length a" unfolding xs(1) by (simp add: takeWhile_append2 takeWhile_append)
    ultimately show "(n, m) \<in> inv_image less_than ?idx" by simp
  qed
  then show ?thesis by (rule acyclic_subset [OF wf_acyclic [OF wf_inv_image [OF wf_less_than]]])
qed

text \<open>On an acyclic graph no node is left over when the queue runs empty.\<close>

lemma kahn_all_sorted:
  assumes g: "wf_graph g" "acyclic (edge_rel g)" and inv: "kahn_inv g [] r (open_into g r)"
  shows "set r = set (tg_order g)"
proof (rule ccontr)
  assume "set r \<noteq> set (tg_order g)"
  with inv have "set (tg_order g) - set r \<noteq> {}" by (auto simp: kahn_inv_def)
  moreover have "wf (edge_rel g)"
    using g(2) finite_acyclic_wf [of "edge_rel g"] by (simp add: edge_rel_all_edges [OF g(1)])
  ultimately obtain z where z: "z \<in> set (tg_order g) - set r"
    and min: "\<And>y. (y, z) \<in> edge_rel g \<Longrightarrow> y \<notin> set (tg_order g) - set r"
    by (metis wfE_min ex_in_conv)
  have "open_into g r z \<noteq> 0" using z inv by (auto simp: kahn_inv_def)
  then obtain e where e: "e \<in> set (all_edges g)" "e_target e = z" "e_source e \<notin> set r"
    by (auto simp: open_into_def filter_empty_conv)
  then have "(e_source e, z) \<in> edge_rel g" by (auto simp: edge_rel_all_edges [OF g(1)])
  with min e g(1) show False by (auto simp: wf_graph_def)
qed

lemma topological_sort_cases:
  assumes "wf_graph g"
  shows "\<exists>r. kahn_inv g [] r (open_into g r)
    \<and> topological_sort g = Some (if length r \<noteq> length (tg_order g) then Inl Cycle else Inr r)"
  using kahn_returns [OF assms kahn_inv_init [OF assms]]
  by (auto simp: topological_sort_def Let_def)

lemma sorted_length_iff:
  assumes "wf_graph g" "kahn_inv g [] r (open_into g r)"
  shows "length r = length (tg_order g) \<longleftrightarrow> set r = set (tg_order g)"
proof -
  have "distinct r" "set r \<subseteq> set (tg_order g)" using assms(2) by (auto simp: kahn_inv_def)
  moreover have "distinct (tg_order g)" using assms(1) by (auto simp: wf_graph_def im_ok_def im_keys_def)
  ultimately show ?thesis by (metis card_subset_eq distinct_card List.finite_set)
qed

section \<open>Graphs the reader builds\<close>

text \<open>
  The reader adds a vertex the first time a file is read and, once both files are vertices, an
  edge for each include; a refused edge ends the read.
\<close>

inductive graph_step :: "taskfile_graph \<Rightarrow> taskfile_graph \<Rightarrow> bool" where
  vertex: "vertex g (vx_uri v) = None \<Longrightarrow> graph_step g (add_vertex v g)"
| edge: "vertex g s \<noteq> None \<Longrightarrow> vertex g t \<noteq> None \<Longrightarrow> add_edge s t incs g = Inr g' \<Longrightarrow> graph_step g g'"

inductive built :: "taskfile_graph \<Rightarrow> bool" where
  start: "built empty_graph"
| step: "built g \<Longrightarrow> graph_step g g' \<Longrightarrow> built g'"

lemma concat_im_insert:
  assumes "distinct (map fst m)" "old = (case map_of m s of Some es \<Rightarrow> es | None \<Rightarrow> [])"
  shows "set (concat (map snd (im_insert s (old @ [x]) m))) = insert x (set (concat (map snd m)))"
  using assms
proof (induction m)
  case (Cons p m)
  obtain k es where p: "p = (k, es)" by (cases p)
  show ?case
  proof (cases "k = s")
    case True
    with Cons.prems p show ?thesis by auto
  next
    case False
    with Cons p have "set (concat (map snd (im_insert s (old @ [x]) m))) = insert x (set (concat (map snd m)))"
      by simp
    with False p show ?thesis by auto
  qed
qed simp

lemma all_edges_add_edge:
  assumes "add_edge s t incs g = Inr g'" "im_ok (tg_edges g)"
  shows "set (all_edges g') = insert \<lparr>e_source = s, e_target = t, e_includes = incs\<rparr> (set (all_edges g))"
proof -
  have "tg_edges g' = im_insert s (out_edges g s @ [\<lparr>e_source = s, e_target = t, e_includes = incs\<rparr>]) (tg_edges g)"
    using assms(1) by (auto simp: add_edge_def split: if_splits)
  then show ?thesis
    using concat_im_insert [of "tg_edges g" "out_edges g s" s "\<lparr>e_source = s, e_target = t, e_includes = incs\<rparr>"] assms(2)
    by (simp add: all_edges_def out_edges_def im_ok_def im_get_def)
qed

lemma wf_add_edge:
  assumes "wf_graph g" "vertex g s \<noteq> None" "vertex g t \<noteq> None" "add_edge s t incs g = Inr g'"
  shows "wf_graph g'"
proof -
  have g': "tg_vertices g' = tg_vertices g" "tg_order g' = tg_order g"
    "tg_edges g' = im_insert s (out_edges g s @ [\<lparr>e_source = s, e_target = t, e_includes = incs\<rparr>]) (tg_edges g)"
    using assms(4) by (auto simp: add_edge_def split: if_splits)
  have st: "s \<in> set (tg_order g)" "t \<in> set (tg_order g)"
    using assms(1-3) im.get_None [of "tg_vertices g"] by (auto simp: vertex_def wf_graph_def)
  have src: "\<forall>e\<in>set (out_edges g s). e_source e = s"
    using assms(1) im_get_in_set [of "tg_edges g" s]
    by (cases "im_get (tg_edges g) s") (auto simp: out_edges_def wf_graph_def)
  have "(n, es) \<in> set (tg_edges g') \<Longrightarrow> e \<in> set es \<Longrightarrow> e_source e = n" for n es e
    using set_im_insert [of s _ "tg_edges g"] assms(1) src unfolding g' wf_graph_def by fastforce
  then show ?thesis
    using assms(1) st all_edges_add_edge [OF assms(4)] im.ok_insert [of "tg_edges g"]
    unfolding wf_graph_def g' by auto
qed

lemma built_wf_acyclic: "built g \<Longrightarrow> wf_graph g \<and> acyclic (edge_rel g)"
proof (induction rule: built.induct)
  case start
  then show ?case
    by (auto simp: wf_graph_def empty_graph_def im_ok_def im_keys_def all_edges_def edge_rel_def
        out_edges_def im_get_def acyclic_def)
next
  case (step g g')
  from step.hyps(2) show ?case
  proof cases
    case (vertex v)
    then have "tg_edges g' = tg_edges g" by (simp add: add_vertex_def)
    moreover from this have "edge_rel g' = edge_rel g" "all_edges g' = all_edges g"
      by (simp_all add: edge_rel_def out_edges_def all_edges_def)
    moreover have "im_keys (tg_vertices g') = tg_order g'" "im_ok (tg_vertices g')"
      using vertex step.IH im.get_None [of "tg_vertices g" "vx_uri v"] im.ok_insert [of "tg_vertices g"]
      by (auto simp: add_vertex_def vertex_def wf_graph_def im_keys_insert)
    moreover have "set (tg_order g) \<subseteq> set (tg_order g')" using vertex by (auto simp: add_vertex_def)
    ultimately show ?thesis using step.IH by (auto simp: wf_graph_def)
  next
    case (edge s t incs)
    then show ?thesis using step.IH wf_add_edge acyclic_add_edge by blast
  qed
qed

lemma topological_sort_main:
  assumes "wf_graph g"
  shows "\<exists>r. topological_sort g = Some r \<and>
    (case r of
       Inr ts \<Rightarrow> acyclic (edge_rel g) \<and> distinct ts \<and> set ts = set (tg_order g)
         \<and> (\<forall>e\<in>set (all_edges g). \<exists>a b. ts = a @ e_target e # b \<and> e_source e \<in> set a)
     | Inl e \<Rightarrow> e = Cycle \<and> \<not> acyclic (edge_rel g))"
proof -
  from topological_sort_cases [OF assms] obtain r where inv: "kahn_inv g [] r (open_into g r)"
    and ts: "topological_sort g = Some (if length r \<noteq> length (tg_order g) then Inl Cycle else Inr r)"
    by blast
  have ord: "distinct r" "ordered g r" using inv by (simp_all add: kahn_inv_def)
  show ?thesis
  proof (cases "length r = length (tg_order g)")
    case True
    then have all: "set r = set (tg_order g)" using sorted_length_iff [OF assms inv] by simp
    have "\<exists>a b. r = a @ e_target e # b \<and> e_source e \<in> set a" if "e \<in> set (all_edges g)" for e
    proof -
      have "e_target e \<in> set r" using that assms all by (auto simp: wf_graph_def)
      then obtain a b where "r = a @ e_target e # b" by (metis split_list)
      with ord(2) that show ?thesis by (auto simp: ordered_def)
    qed
    with True ts all ord ordered_acyclic [OF assms ord(2) all] show ?thesis by auto
  next
    case False
    with ts sorted_length_iff [OF assms inv] kahn_all_sorted [OF assms _ inv] show ?thesis by auto
  qed
qed

section \<open>Merging a built graph\<close>

lemma vertex_merge_edge:
  assumes "merge_edge inc e g = Inr g'"
  shows "(vertex g' u = None) = (vertex g u = None)"
proof -
  obtain base where "g' = g\<lparr>tg_vertices := im_update (e_source e) (\<lambda>v. v\<lparr>vx_taskfile := base\<rparr>) (tg_vertices g)\<rparr>"
    using assms by (auto simp: merge_edge_def split: option.splits)
  then show ?thesis by (simp add: vertex_def im_get_update)
qed

definition merge_refused :: "graph_error \<Rightarrow> bool" where
  "merge_refused e = (\<exists>m. e = MergeError m)"

lemma merge_include_fold_error:
  "try_fold (merge_include inc) incs base = Inl e \<Longrightarrow> merge_refused e"
proof (induction incs arbitrary: base)
  case (Cons i incs)
  then show ?case
    by (cases "taskfile_merge base inc i") (auto simp: merge_include_def merge_refused_def)
qed simp

lemma merge_edges_error:
  assumes "try_fold (merge_edge inc) es g = Inl err" "\<And>e. e \<in> set es \<Longrightarrow> vertex g (e_source e) \<noteq> None"
  shows "merge_refused err"
  using assms
proof (induction es arbitrary: g)
  case (Cons e es)
  obtain vx where vx: "vertex g (e_source e) = Some vx" using Cons.prems(2) [of e] by auto
  show ?case
  proof (cases "merge_edge inc e g")
    case (Inl err')
    with vx Cons.prems(1) show ?thesis
      by (auto simp: merge_edge_def try_bind_eq_Inl intro: merge_include_fold_error)
  next
    case (Inr g')
    show ?thesis
      by (rule Cons.IH [of g']) (use Cons.prems Inr vertex_merge_edge [OF Inr] in auto)
  qed
qed simp

lemma merge_edges_vertex:
  assumes "try_fold (merge_edge inc) es g = Inr g'"
  shows "(vertex g' u = None) = (vertex g u = None)"
  by (rule try_fold_invariant [OF assms, where P = "\<lambda>h. (vertex h u = None) = (vertex g u = None)"])
     (simp_all add: vertex_merge_edge)

lemma merge_vertices_error:
  assumes "try_fold (merge_vertex preds) hs g = Inl err" "\<And>h. h \<in> set hs \<Longrightarrow> vertex g h \<noteq> None"
    and "\<And>h e. e \<in> set (preds h) \<Longrightarrow> vertex g (e_source e) \<noteq> None"
  shows "merge_refused err"
  using assms
proof (induction hs arbitrary: g)
  case (Cons h hs)
  obtain vx where vx: "vertex g h = Some vx" using Cons.prems(2) [of h] by auto
  show ?case
  proof (cases "merge_vertex preds h g")
    case (Inl err')
    with vx Cons.prems show ?thesis by (auto simp: merge_vertex_def intro: merge_edges_error)
  next
    case (Inr g')
    then have same: "(vertex g' u = None) = (vertex g u = None)" for u
      using vx by (auto simp: merge_vertex_def dest: merge_edges_vertex)
    show ?thesis
      by (rule Cons.IH [of g']) (use Cons.prems Inr same in auto)
  qed
qed simp

lemma merge_vertices_vertex:
  assumes "try_fold (merge_vertex preds) hs g = Inr g'"
  shows "(vertex g' u = None) = (vertex g u = None)"
  by (rule try_fold_invariant [OF assms, where P = "\<lambda>h. (vertex h u = None) = (vertex g u = None)"])
     (simp_all add: merge_vertex_def merge_edges_vertex split: option.splits)

section \<open>Properties\<close>



text \<open>
  C11: the topological sort always returns. On a graph of the reader's shape it lists every
  file once with each including file in front of the files it includes, or reports a cycle,
  and it reports a cycle exactly when there is one.
\<close>

theorem topological_sort_correct:
  assumes "wf_graph g"
  shows "\<exists>r. topological_sort g = Some r \<and>
    (case r of
       Inr ts \<Rightarrow> acyclic (edge_rel g) \<and> distinct ts \<and> set ts = set (tg_order g)
         \<and> (\<forall>e\<in>set (all_edges g). \<exists>a b. ts = a @ e_target e # b \<and> e_source e \<in> set a)
     | Inl e \<Rightarrow> e = Cycle \<and> \<not> acyclic (edge_rel g))"
  by (rule topological_sort_main [OF assms])

definition sample_graph :: taskfile_graph where
  "sample_graph = add_vertex \<lparr>vx_uri = ''a'', vx_taskfile = default_taskfile\<rparr> empty_graph"

theorem topological_sort_correct_witness:
  "wf_graph sample_graph \<and> (\<exists>r. topological_sort sample_graph = Some r)"
proof -
  have "graph_step empty_graph sample_graph"
    unfolding sample_graph_def by (rule graph_step.vertex) (simp add: vertex_def empty_graph_def)
  then have "wf_graph sample_graph" using built_wf_acyclic [OF built.step [OF built.start]] by blast
  from topological_sort_correct [OF this] this show ?thesis by blast
qed

text \<open>
  C12: merging what the reader built fails only for the reasons a Taskfile merge has. The
  graph is acyclic and every edge joins two vertices, so the merge always returns, never
  reports a cycle or a missing vertex, and an empty graph is the only one it refuses by itself.
\<close>

theorem built_graph_merges:
  assumes "built g" "tg_order g \<noteq> []"
  shows "\<exists>r. graph_merge g = Some r \<and> (\<forall>e. r = Inl e \<longrightarrow> merge_refused e)"
proof -
  from built_wf_acyclic [OF assms(1)] have g: "wf_graph g" "acyclic (edge_rel g)" by auto
  from topological_sort_main [OF g(1)] obtain r where r: "topological_sort g = Some r"
    "case r of Inr ts \<Rightarrow> acyclic (edge_rel g) \<and> distinct ts \<and> set ts = set (tg_order g)
       \<and> (\<forall>e\<in>set (all_edges g). \<exists>a b. ts = a @ e_target e # b \<and> e_source e \<in> set a)
     | Inl e \<Rightarrow> e = Cycle \<and> \<not> acyclic (edge_rel g)" by blast
  with g(2) obtain ts where ts: "topological_sort g = Some (Inr ts)" "set ts = set (tg_order g)"
    by (cases r) auto
  have vx: "vertex g u \<noteq> None" if "u \<in> set (tg_order g)" for u
    using that g(1) im.get_None [of "tg_vertices g" u] by (auto simp: vertex_def wf_graph_def)
  have "merge_refused e" if "merge_hashes g ts = Inl e" for e
  proof (cases "try_fold (merge_vertex (predecessors g)) (rev (tl ts)) g")
    case (Inl err)
    have "set (tl ts) \<subseteq> set (tg_order g)" using ts(2) by (cases ts) auto
    then have "merge_refused err"
      by (intro merge_vertices_error [OF Inl])
         (use vx ts(2) g(1) in \<open>auto simp: predecessors_def wf_graph_def\<close>)
    with Inl that show ?thesis by (simp add: merge_hashes_def)
  next
    case (Inr g')
    obtain h hs where h: "ts = h # hs" using ts(2) assms(2) by (cases ts) auto
    then have "vertex g' h \<noteq> None" using merge_vertices_vertex [OF Inr, of h] vx ts(2) by auto
    with Inr that h show ?thesis by (auto simp: merge_hashes_def)
  qed
  then show ?thesis using ts(1) by (auto simp: graph_merge_def)
qed

theorem built_graph_merges_witness: "\<exists>r. graph_merge sample_graph = Some r \<and> (\<forall>e. r = Inl e \<longrightarrow> merge_refused e)"
proof (rule built_graph_merges)
  show "built sample_graph"
    unfolding sample_graph_def
    by (rule built.step [OF built.start graph_step.vertex]) (simp add: vertex_def empty_graph_def)
  show "tg_order sample_graph \<noteq> []"
    by (simp add: sample_graph_def add_vertex_def empty_graph_def im_get_def)
qed

end
