(* ===== verification/Hash_Encoding.thy ===== *)
theory Hash_Encoding
  imports Merge
begin

text \<open>
  The identity of a task (\<open>hash.rs\<close>): the canonical byte encoding of its meaningful fields,
  field by field as the source writes it, and the strings derived from its digest. The 64-bit
  xxHash3 of the encoding comes from the \<open>twox_hash\<close> crate and is a parameter
  (\<open>xxh3\<close>, already formatted in hexadecimal). No branch of the encoder constructs a
  \<open>HashError\<close>, so the encoders are total functions.

  Every encoder is shown to be a \<open>view_code\<close>: two values with the same bytes agree on what
  the encoder keeps, whatever is written after them. So two tasks share an encoding exactly
  when they agree on the hashed fields.
\<close>

section \<open>The encoder\<close>

definition enc_tag :: "byte \<Rightarrow> byte list" where
  "enc_tag t = [t]"

definition enc_str :: "str \<Rightarrow> byte list" where
  "enc_str s = enc_len (length s) @ as_bytes s"

definition enc_bool :: "bool \<Rightarrow> byte list" where
  "enc_bool b = [if b then 1 else 0]"

definition enc_u64 :: "u64 \<Rightarrow> byte list" where
  "enc_u64 n = le_bytes 8 n"

definition enc_opt :: "('a \<Rightarrow> byte list) \<Rightarrow> 'a option \<Rightarrow> byte list" where
  "enc_opt e x = (case x of None \<Rightarrow> enc_tag 0 | Some v \<Rightarrow> enc_tag 1 @ e v)"

definition enc_opt_bool :: "bool option \<Rightarrow> byte list" where
  "enc_opt_bool b = enc_opt enc_bool b"

definition encode_str_slice :: "str list \<Rightarrow> byte list" where
  "encode_str_slice xs = enc_seq enc_str xs"

fun encode_value :: "num_fmt \<Rightarrow> yaml \<Rightarrow> byte list" where
  "encode_value f Null = enc_tag 0"
| "encode_value f (Bool b) = enc_tag 1 @ enc_bool b"
| "encode_value f (Number n) = enc_tag 2 @ enc_str (number_display f n)"
| "encode_value f (String s) = enc_tag 3 @ enc_str s"
| "encode_value f (Sequence vs) = enc_tag 4 @ enc_len (length vs) @ concat (map (encode_value f) vs)"
| "encode_value f (Mapping m) =
     enc_tag 5 @ enc_len (length m) @ concat (map (\<lambda>kv. encode_value f (fst kv) @ encode_value f (snd kv)) m)"
| "encode_value f (Tagged t v) = enc_tag 6 @ enc_str (tag_display t) @ encode_value f v"

definition encode_opt_value :: "num_fmt \<Rightarrow> yaml option \<Rightarrow> byte list" where
  "encode_opt_value f v = enc_opt (encode_value f) v"

definition encode_var :: "num_fmt \<Rightarrow> var \<Rightarrow> byte list" where
  "encode_var f v = encode_opt_value f (v_value v) @ encode_opt_value f (v_live v)
     @ enc_opt enc_str (v_sh v) @ enc_str (v_ref v) @ enc_str (v_dir v)"

definition encode_entry :: "num_fmt \<Rightarrow> str \<times> var \<Rightarrow> byte list" where
  "encode_entry f kv = enc_str (fst kv) @ encode_var f (snd kv)"

definition encode_opt_vars :: "num_fmt \<Rightarrow> vars option \<Rightarrow> byte list" where
  "encode_opt_vars f vs = enc_opt (enc_seq (encode_entry f)) vs"

definition encode_vars_flat :: "num_fmt \<Rightarrow> vars option \<Rightarrow> byte list" where
  "encode_vars_flat f vs = enc_seq (encode_entry f) (case vs of Some m \<Rightarrow> m | None \<Rightarrow> [])"

definition encode_matrix_row :: "num_fmt \<Rightarrow> str \<times> matrix_row \<Rightarrow> byte list" where
  "encode_matrix_row f kr = enc_str (fst kr) @ enc_str (mr_ref (snd kr)) @ enc_seq (encode_value f) (mr_value (snd kr))"

definition encode_matrix :: "num_fmt \<Rightarrow> matrix option \<Rightarrow> byte list" where
  "encode_matrix f m = enc_opt (enc_seq (encode_matrix_row f)) m"

definition encode_for_body :: "num_fmt \<Rightarrow> for_loop \<Rightarrow> byte list" where
  "encode_for_body f l = enc_str (f_from l) @ enc_seq (encode_value f) (f_list l) @ encode_matrix f (f_matrix l)
     @ enc_str (f_var l) @ enc_str (f_split l) @ enc_str (f_as l)"

definition encode_for :: "num_fmt \<Rightarrow> for_loop option \<Rightarrow> byte list" where
  "encode_for f l = enc_opt (encode_for_body f) l"

definition encode_platform :: "platform \<Rightarrow> byte list" where
  "encode_platform p = enc_str (p_os p) @ enc_str (p_arch p)"

definition encode_platforms :: "platform list \<Rightarrow> byte list" where
  "encode_platforms ps = enc_seq encode_platform ps"

definition encode_cmd :: "num_fmt \<Rightarrow> cmd \<Rightarrow> byte list" where
  "encode_cmd f c = enc_str (c_cmd c) @ enc_str (c_task c) @ encode_for f (c_for c) @ enc_str (c_if c)
     @ enc_bool (c_silent c) @ encode_str_slice (c_set c) @ encode_str_slice (c_shopt c)
     @ encode_opt_vars f (c_vars c) @ enc_bool (c_ignore_error c) @ enc_bool (c_defer c)
     @ encode_platforms (c_platforms c)"

definition encode_cmds :: "num_fmt \<Rightarrow> cmd list \<Rightarrow> byte list" where
  "encode_cmds f cs = enc_seq (encode_cmd f) cs"

definition encode_dep :: "num_fmt \<Rightarrow> dep \<Rightarrow> byte list" where
  "encode_dep f d = enc_str (d_task d) @ encode_for f (d_for d) @ encode_opt_vars f (d_vars d)
     @ enc_bool (d_silent d) @ enc_opt_bool (d_fingerprint d)"

definition encode_deps :: "num_fmt \<Rightarrow> dep list \<Rightarrow> byte list" where
  "encode_deps f ds = enc_seq (encode_dep f) ds"

definition encode_glob :: "num_fmt \<Rightarrow> glob \<Rightarrow> byte list" where
  "encode_glob f g = enc_str (g_glob g) @ enc_bool (g_negate g) @ enc_str (g_fingerprint g) @
     (if g_group g \<noteq> 0 then enc_str (CHR 0x00 # ''group'') @ enc_u64 (ucast (g_group g))
      else if g_task g = [] then enc_str (g_from g)
      else enc_str (CHR 0x00 # ''task'') @ enc_str (g_task g) @ encode_vars_flat f (g_vars g))"

definition encode_globs :: "num_fmt \<Rightarrow> glob list \<Rightarrow> byte list" where
  "encode_globs f gs = enc_seq (encode_glob f) gs"

definition encode_precondition :: "precondition \<Rightarrow> byte list" where
  "encode_precondition p = enc_str (pc_sh p) @ enc_str (pc_msg p)"

definition encode_preconditions :: "precondition list \<Rightarrow> byte list" where
  "encode_preconditions ps = enc_seq encode_precondition ps"

definition encode_required :: "vars_with_validation \<Rightarrow> byte list" where
  "encode_required v = enc_str (vv_name v) @ encode_str_slice (vv_enum_values v)"

definition encode_requires :: "requires option \<Rightarrow> byte list" where
  "encode_requires r = enc_opt (enc_seq encode_required) r"

definition encode_cache_body :: "cache \<Rightarrow> byte list" where
  "encode_cache_body c = enc_str (ca_inherit c) @ enc_opt_bool (ca_enabled c) @ enc_str (ca_if c)
     @ enc_str (ca_url c) @ enc_str (ca_lock c) @ enc_str (ca_vk c) @ enc_str (ca_namespace c)
     @ enc_str (ca_ttl c) @ enc_str (ca_lock_timeout c)"

definition encode_cache :: "cache option \<Rightarrow> byte list" where
  "encode_cache c = enc_opt encode_cache_body c"

definition encode_location_body :: "location \<Rightarrow> byte list" where
  "encode_location_body l = enc_len (l_line l) @ enc_len (l_column l) @ enc_str (l_taskfile l)"

definition encode_location :: "location option \<Rightarrow> byte list" where
  "encode_location l = enc_opt encode_location_body l"

definition encode_task :: "num_fmt \<Rightarrow> task \<Rightarrow> byte list" where
  "encode_task f t = encode_deps f (t_setup t) @ encode_cmds f (t_cmds t) @ encode_deps f (t_deps t)
     @ enc_str (t_label t) @ enc_str (t_desc t) @ encode_str_slice (t_prompt t) @ enc_str (t_summary t)
     @ encode_requires (t_requires t) @ encode_str_slice (t_aliases t)
     @ encode_globs f (t_sources t) @ encode_globs f (t_generates t) @ encode_cache (t_cache t)
     @ encode_preconditions (t_preconditions t) @ encode_str_slice (t_dirs t)
     @ encode_str_slice (t_set t) @ encode_str_slice (t_shopt t) @ encode_str_slice (t_dotenv t)
     @ enc_opt_bool (t_silent t) @ enc_bool (t_interactive t) @ enc_bool (t_internal t)
     @ enc_bool (t_ignore_error t) @ enc_str (t_run t) @ encode_platforms (t_platforms t)
     @ enc_str (t_if t) @ enc_bool (t_watch t) @ encode_location (t_location t)
     @ enc_bool (t_failfast t)"

section \<open>The identities\<close>

definition hash_empty :: "task \<Rightarrow> str" where
  "hash_empty t = []"

definition task_taskfile :: "task \<Rightarrow> str" where
  "task_taskfile t = (case t_location t of Some l \<Rightarrow> l_taskfile l | None \<Rightarrow> [])"

definition hash_name :: "task \<Rightarrow> str" where
  "hash_name t = task_taskfile t @ '':'' @ local_name t"

definition hash_hash :: "(byte list \<Rightarrow> str) \<Rightarrow> num_fmt \<Rightarrow> task \<Rightarrow> str" where
  "hash_hash xxh3 f t = task_taskfile t @ '':'' @ local_name t @ '':'' @ xxh3 (encode_task f t)"

definition cache_vars_digest :: "(byte list \<Rightarrow> str) \<Rightarrow> num_fmt \<Rightarrow> task \<Rightarrow> str" where
  "cache_vars_digest xxh3 f t = xxh3 (encode_vars_flat f (t_vars t) @ encode_vars_flat f (t_include_vars t))"

definition join_cache_checksum :: "str \<Rightarrow> str \<Rightarrow> str" where
  "join_cache_checksum source_hash vars_digest =
     (if source_hash = [] then [] else source_hash @ ''-'' @ vars_digest)"

definition cache_checksum :: "(byte list \<Rightarrow> str) \<Rightarrow> num_fmt \<Rightarrow> task \<Rightarrow> str \<Rightarrow> str" where
  "cache_checksum xxh3 f t source_hash = join_cache_checksum source_hash (cache_vars_digest xxh3 f t)"

definition encode_call_entry :: "num_fmt \<Rightarrow> str \<times> var \<Rightarrow> byte list" where
  "encode_call_entry f kv = enc_str (fst kv) @ encode_var f (snd kv)
     @ enc_tag (case v_dialect (snd kv) of Go \<Rightarrow> 0 | Jinja \<Rightarrow> 1)"

definition call_key :: "num_fmt \<Rightarrow> str \<Rightarrow> str list \<Rightarrow> vars \<Rightarrow> byte list" where
  "call_key f t captures vars =
     enc_str t @ encode_str_slice captures @ enc_seq (encode_call_entry f) vars"

definition relative :: "str \<Rightarrow> str \<Rightarrow> str" where
  "relative base path =
     (if base \<noteq> [] \<and> is_absolute path
      then (case rel_str base path of Some r \<Rightarrow> r | None \<Rightarrow> path) else path)"

definition normalized :: "task \<Rightarrow> task" where
  "normalized t =
     (let root = (case t_dirs t of d # _ \<Rightarrow> d | [] \<Rightarrow> []);
          dir = compute_dir t;
          rel_glob = (\<lambda>g. g\<lparr>g_glob := relative dir (g_glob g), g_fingerprint := relative dir (g_fingerprint g)\<rparr>)
      in t\<lparr>t_dirs := [relative root dir],
           t_location := map_option (\<lambda>l. l\<lparr>l_taskfile := relative root (l_taskfile l), l_line := 0, l_column := 0\<rparr>) (t_location t),
           t_sources := map rel_glob (t_sources t), t_generates := map rel_glob (t_generates t),
           t_dotenv := map (relative dir) (t_dotenv t), t_aliases := []\<rparr>)"

definition fingerprint_bytes :: "num_fmt \<Rightarrow> task \<Rightarrow> byte list" where
  "fingerprint_bytes f t = enc_str (local_name t) @ encode_task f (normalized t) @ encode_vars_flat f (t_env t)"

definition fingerprint :: "(byte list \<Rightarrow> str) \<Rightarrow> num_fmt \<Rightarrow> task \<Rightarrow> str" where
  "fingerprint xxh3 f t = xxh3 (fingerprint_bytes f t)"

section \<open>Codes\<close>

definition good_str :: "str \<Rightarrow> bool" where
  "good_str s = fits (length s)"

interpretation str_code: prefix_code enc_str good_str
proof
  fix a b :: str and s t
  assume "good_str a" "good_str b"
  then show "(enc_str a @ s = enc_str b @ t) \<longleftrightarrow> (a = b \<and> s = t)"
    by (auto simp: enc_str_def good_str_def decode_iff)
qed

interpretation bool_code: prefix_code enc_bool "\<lambda>_. True"
  by unfold_locales (auto simp: enc_bool_def)

interpretation u64_code: prefix_code enc_u64 "\<lambda>_. True"
  by unfold_locales (simp only: enc_u64_def, subst le_bytes_append, simp_all)

lemma opt_view_code:
  assumes "view_code e g v"
  shows "view_code (enc_opt e) (pred_option g) (map_option v)"
proof
  fix x y s t assume "pred_option g x" "pred_option g y"
  then show "(enc_opt e x @ s = enc_opt e y @ t) \<longleftrightarrow> (map_option v x = map_option v y \<and> s = t)"
    using view_code.decodable [OF assms]
    by (cases x; cases y) (auto simp: enc_opt_def enc_tag_def)
qed

interpretation opt_bool_code: view_code enc_opt_bool "pred_option (\<lambda>_. True)" "map_option (\<lambda>x. x)"
  using opt_view_code [OF bool_code.view_code_axioms] by (simp add: enc_opt_bool_def [abs_def])

interpretation slice_code: view_code encode_str_slice "good_seq good_str" "map (\<lambda>x. x)"
  using view_code_seq [OF str_code.view_code_axioms] by (simp add: encode_str_slice_def [abs_def])

text \<open>
  Values: tags in their canonical form without the leading mark, numbers from a set on which
  the printed form is injective.
\<close>

fun good_value :: "num_fmt \<Rightarrow> number set \<Rightarrow> yaml \<Rightarrow> bool" where
  "good_value f N Null = True"
| "good_value f N (Bool b) = True"
| "good_value f N (Number n) = (n \<in> N \<and> good_str (number_display f n))"
| "good_value f N (String s) = good_str s"
| "good_value f N (Sequence vs) = (fits (length vs) \<and> list_all (good_value f N) vs)"
| "good_value f N (Mapping m) =
     (fits (length m) \<and> list_all (\<lambda>kv. good_value f N (fst kv) \<and> good_value f N (snd kv)) m)"
| "good_value f N (Tagged t v) = (nobang t = t \<and> good_str (tag_display t) \<and> good_value f N v)"

definition decodes :: "('a \<Rightarrow> byte list) \<Rightarrow> ('a \<Rightarrow> bool) \<Rightarrow> 'a \<Rightarrow> bool" where
  "decodes e g x = (\<forall>y s t. g y \<longrightarrow> (e x @ s = e y @ t) \<longleftrightarrow> (x = y \<and> s = t))"

lemma decodes_list:
  assumes "list_all (decodes e g) xs" "list_all g ys" "length xs = length ys"
  shows "(concat (map e xs) @ s = concat (map e ys) @ t) \<longleftrightarrow> (xs = ys \<and> s = t)"
  using assms(3,1,2)
  by (induction xs ys rule: list_induct2) (auto simp: decodes_def)

lemma decodes_seq:
  assumes "list_all (decodes e g) xs" "list_all g ys" "fits (length xs)" "fits (length ys)"
  shows "(enc_len (length xs) @ concat (map e xs) @ s = enc_len (length ys) @ concat (map e ys) @ t)
    \<longleftrightarrow> (xs = ys \<and> s = t)"
  using decodes_list [OF assms(1,2)] assms(3,4) by (auto simp: decode_iff)

lemma tag_display_inj: "nobang a = a \<Longrightarrow> nobang b = b \<Longrightarrow> tag_display a = tag_display b \<Longrightarrow> a = b"
  by (simp add: tag_display_def)

lemma encode_value_decodes:
  assumes "inj_on (number_display f) N"
  shows "good_value f N x \<Longrightarrow> decodes (encode_value f) (good_value f N) x"
proof (induction x)
  case Null
  show ?case unfolding decodes_def
  proof (intro allI impI)
    fix y s t assume "good_value f N y"
    then show "(encode_value f Null @ s = encode_value f y @ t) \<longleftrightarrow> (Null = y \<and> s = t)"
      by (cases y) (auto simp: enc_tag_def)
  qed
next
  case (Bool b)
  show ?case unfolding decodes_def
  proof (intro allI impI)
    fix y s t assume "good_value f N y"
    then show "(encode_value f (Bool b) @ s = encode_value f y @ t) \<longleftrightarrow> (Bool b = y \<and> s = t)"
      by (cases y) (auto simp: enc_tag_def bool_code.decodable)
  qed
next
  case (Number n)
  show ?case unfolding decodes_def
  proof (intro allI impI)
    fix y s t assume "good_value f N y"
    then show "(encode_value f (Number n) @ s = encode_value f y @ t) \<longleftrightarrow> (Number n = y \<and> s = t)"
      using Number assms by (cases y) (auto simp: enc_tag_def str_code.decodable inj_on_eq_iff)
  qed
next
  case (String u)
  show ?case unfolding decodes_def
  proof (intro allI impI)
    fix y s t assume "good_value f N y"
    then show "(encode_value f (String u) @ s = encode_value f y @ t) \<longleftrightarrow> (String u = y \<and> s = t)"
      using String by (cases y) (auto simp: enc_tag_def str_code.decodable)
  qed
next
  case (Sequence vs)
  have l: "list_all (decodes (encode_value f) (good_value f N)) vs"
    using Sequence by (auto simp: list_all_iff)
  show ?case unfolding decodes_def
  proof (intro allI impI)
    fix y s t assume "good_value f N y"
    then show "(encode_value f (Sequence vs) @ s = encode_value f y @ t) \<longleftrightarrow> (Sequence vs = y \<and> s = t)"
      using decodes_seq [OF l] Sequence.prems by (cases y) (auto simp: enc_tag_def)
  qed
next
  case (Mapping m)
  let ?e = "\<lambda>kv. encode_value f (fst kv) @ encode_value f (snd kv)"
  let ?g = "\<lambda>kv. good_value f N (fst kv) \<and> good_value f N (snd kv)"
  have "decodes ?e ?g kv" if "kv \<in> set m" for kv
  proof -
    have "decodes (encode_value f) (good_value f N) (fst kv)" "decodes (encode_value f) (good_value f N) (snd kv)"
      using Mapping that by (cases kv; auto simp: list_all_iff)+
    then show ?thesis unfolding decodes_def by (auto simp: prod_eq_iff)
  qed
  then have l: "list_all (decodes ?e ?g) m" by (simp add: list_all_iff)
  show ?case unfolding decodes_def
  proof (intro allI impI)
    fix y s t assume "good_value f N y"
    then show "(encode_value f (Mapping m) @ s = encode_value f y @ t) \<longleftrightarrow> (Mapping m = y \<and> s = t)"
      using decodes_seq [OF l] Mapping.prems by (cases y) (auto simp: enc_tag_def)
  qed
next
  case (Tagged tg v)
  show ?case unfolding decodes_def
  proof (intro allI impI)
    fix y s t assume "good_value f N y"
    then show "(encode_value f (Tagged tg v) @ s = encode_value f y @ t) \<longleftrightarrow> (Tagged tg v = y \<and> s = t)"
      using Tagged by (cases y) (auto simp: enc_tag_def str_code.decodable decodes_def dest: tag_display_inj)
  qed
qed

lemma value_code: "inj_on (number_display f) N \<Longrightarrow> prefix_code (encode_value f) (good_value f N)"
  unfolding prefix_code_def
  by (rule view_code.intro) (use encode_value_decodes in \<open>auto simp: decodes_def\<close>)

text \<open>Variables: everything but the dialect, which only \<open>call_key\<close> keeps.\<close>

definition view_var :: "var \<Rightarrow> var" where
  "view_var v = v\<lparr>v_dialect := Go\<rparr>"

definition good_var :: "num_fmt \<Rightarrow> number set \<Rightarrow> var \<Rightarrow> bool" where
  "good_var f N v = (pred_option (good_value f N) (v_value v) \<and> pred_option (good_value f N) (v_live v)
     \<and> pred_option good_str (v_sh v) \<and> good_str (v_ref v) \<and> good_str (v_dir v))"

lemmas opt_str_decode = view_code.decodable [OF opt_view_code [OF str_code.view_code_axioms]]
lemmas opt_value_decode = view_code.decodable [OF opt_view_code [OF value_code [unfolded prefix_code_def]]]
lemmas seq_value_decode = enc_seq_decodable [OF value_code [unfolded prefix_code_def]]

lemma var_code:
  assumes "inj_on (number_display f) N"
  shows "view_code (encode_var f) (good_var f N) view_var"
proof
  fix x y s t assume "good_var f N x" "good_var f N y"
  then show "(encode_var f x @ s = encode_var f y @ t) \<longleftrightarrow> (view_var x = view_var y \<and> s = t)"
    by (cases x; cases y)
       (simp add: encode_var_def encode_opt_value_def good_var_def view_var_def str_code.decodable
         opt_str_decode opt_value_decode [OF assms] option.map_ident)
qed

definition view_entry :: "str \<times> var \<Rightarrow> str \<times> var" where
  "view_entry kv = (fst kv, view_var (snd kv))"

definition good_entry :: "num_fmt \<Rightarrow> number set \<Rightarrow> str \<times> var \<Rightarrow> bool" where
  "good_entry f N kv = (good_str (fst kv) \<and> good_var f N (snd kv))"

lemma entry_code:
  assumes "inj_on (number_display f) N"
  shows "view_code (encode_entry f) (good_entry f N) view_entry"
  by unfold_locales
     (auto simp: encode_entry_def good_entry_def view_entry_def str_code.decodable
       view_code.decodable [OF var_code [OF assms]])

definition view_vars :: "vars option \<Rightarrow> vars option" where
  "view_vars vs = map_option (map view_entry) vs"

definition good_vars :: "num_fmt \<Rightarrow> number set \<Rightarrow> vars option \<Rightarrow> bool" where
  "good_vars f N vs = pred_option (good_seq (good_entry f N)) vs"

lemma opt_vars_code:
  assumes "inj_on (number_display f) N"
  shows "view_code (encode_opt_vars f) (good_vars f N) view_vars"
  using opt_view_code [OF view_code_seq [OF entry_code [OF assms]]]
  by (simp add: encode_opt_vars_def [abs_def] good_vars_def [abs_def] view_vars_def [abs_def])

text \<open>No variables and an empty map are the same call.\<close>

definition flat_view :: "vars option \<Rightarrow> vars" where
  "flat_view vs = map view_entry (case vs of Some m \<Rightarrow> m | None \<Rightarrow> [])"

lemma vars_flat_code:
  assumes "inj_on (number_display f) N"
  shows "view_code (encode_vars_flat f) (good_vars f N) flat_view"
proof
  fix x y s t assume g: "good_vars f N x" "good_vars f N y"
  have "good_seq (good_entry f N) (case x of Some m \<Rightarrow> m | None \<Rightarrow> [])" if "good_vars f N x" for x
    using that by (cases x) (auto simp: good_vars_def good_seq_def fits_def)
  with g show "(encode_vars_flat f x @ s = encode_vars_flat f y @ t) \<longleftrightarrow> (flat_view x = flat_view y \<and> s = t)"
    unfolding encode_vars_flat_def flat_view_def by (intro enc_seq_decodable [OF entry_code [OF assms]])
qed

text \<open>Loops, platforms, commands and dependencies.\<close>

definition good_row :: "num_fmt \<Rightarrow> number set \<Rightarrow> str \<times> matrix_row \<Rightarrow> bool" where
  "good_row f N kr = (good_str (fst kr) \<and> good_str (mr_ref (snd kr)) \<and> good_seq (good_value f N) (mr_value (snd kr)))"

lemma row_code:
  assumes "inj_on (number_display f) N"
  shows "prefix_code (encode_matrix_row f) (good_row f N)"
proof
  fix x y s t assume "good_row f N x" "good_row f N y"
  then show "(encode_matrix_row f x @ s = encode_matrix_row f y @ t) \<longleftrightarrow> (x = y \<and> s = t)"
    by (cases x; cases y; cases "snd x"; cases "snd y")
       (simp add: encode_matrix_row_def good_row_def str_code.decodable seq_value_decode [OF assms])
qed

definition good_for :: "num_fmt \<Rightarrow> number set \<Rightarrow> for_loop \<Rightarrow> bool" where
  "good_for f N l = (good_str (f_from l) \<and> good_seq (good_value f N) (f_list l)
     \<and> pred_option (good_seq (good_row f N)) (f_matrix l)
     \<and> good_str (f_var l) \<and> good_str (f_split l) \<and> good_str (f_as l))"

lemma for_body_code:
  assumes "inj_on (number_display f) N"
  shows "prefix_code (encode_for_body f) (good_for f N)"
proof
  note m = view_code.decodable [OF opt_view_code [OF view_code_seq [OF row_code [OF assms, unfolded prefix_code_def]]]]
  fix x y s t assume "good_for f N x" "good_for f N y"
  then show "(encode_for_body f x @ s = encode_for_body f y @ t) \<longleftrightarrow> (x = y \<and> s = t)"
    by (cases x; cases y)
       (simp add: encode_for_body_def encode_matrix_def good_for_def str_code.decodable
         seq_value_decode [OF assms] m option.map_ident)
qed

lemmas for_decode = view_code.decodable [OF opt_view_code [OF for_body_code [unfolded prefix_code_def]]]

definition good_platform :: "platform \<Rightarrow> bool" where
  "good_platform p = (good_str (p_os p) \<and> good_str (p_arch p))"

interpretation platform_code: prefix_code encode_platform good_platform
proof
  fix x y :: platform and s t assume "good_platform x" "good_platform y"
  then show "(encode_platform x @ s = encode_platform y @ t) \<longleftrightarrow> (x = y \<and> s = t)"
    by (cases x; cases y) (simp add: encode_platform_def good_platform_def str_code.decodable)
qed

lemmas platforms_decode = enc_seq_decodable [OF platform_code.view_code_axioms]

definition view_cmd :: "cmd \<Rightarrow> cmd" where
  "view_cmd c = c\<lparr>c_vars := view_vars (c_vars c)\<rparr>"

definition good_cmd :: "num_fmt \<Rightarrow> number set \<Rightarrow> cmd \<Rightarrow> bool" where
  "good_cmd f N c = (good_str (c_cmd c) \<and> good_str (c_task c) \<and> pred_option (good_for f N) (c_for c)
     \<and> good_str (c_if c) \<and> good_seq good_str (c_set c) \<and> good_seq good_str (c_shopt c)
     \<and> good_vars f N (c_vars c) \<and> good_seq good_platform (c_platforms c))"

lemma cmd_code:
  assumes "inj_on (number_display f) N"
  shows "view_code (encode_cmd f) (good_cmd f N) view_cmd"
proof
  fix x y s t assume "good_cmd f N x" "good_cmd f N y"
  then show "(encode_cmd f x @ s = encode_cmd f y @ t) \<longleftrightarrow> (view_cmd x = view_cmd y \<and> s = t)"
    by (cases x; cases y)
       (simp add: encode_cmd_def encode_for_def encode_platforms_def good_cmd_def view_cmd_def
         str_code.decodable bool_code.decodable slice_code.decodable for_decode [OF assms]
         view_code.decodable [OF opt_vars_code [OF assms]] platforms_decode option.map_ident)
qed

definition view_dep :: "dep \<Rightarrow> dep" where
  "view_dep d = d\<lparr>d_vars := view_vars (d_vars d)\<rparr>"

definition good_dep :: "num_fmt \<Rightarrow> number set \<Rightarrow> dep \<Rightarrow> bool" where
  "good_dep f N d = (good_str (d_task d) \<and> pred_option (good_for f N) (d_for d) \<and> good_vars f N (d_vars d))"

lemma pred_option_True [simp]: "pred_option (\<lambda>_. True) x"
  by (cases x) auto

lemma dep_code:
  assumes "inj_on (number_display f) N"
  shows "view_code (encode_dep f) (good_dep f N) view_dep"
proof
  fix x y s t assume "good_dep f N x" "good_dep f N y"
  then show "(encode_dep f x @ s = encode_dep f y @ t) \<longleftrightarrow> (view_dep x = view_dep y \<and> s = t)"
    by (cases x; cases y)
       (simp add: encode_dep_def encode_for_def good_dep_def view_dep_def str_code.decodable
         bool_code.decodable opt_bool_code.decodable for_decode [OF assms]
         view_code.decodable [OF opt_vars_code [OF assms]] option.map_ident)
qed

text \<open>
  Patterns. A resolved entry carries no reference, a \<open>task:\<close> entry no \<open>from\<close>, and no \<open>from\<close>
  holds a NUL; \<open>folded\<close> is left out.
\<close>

definition view_glob :: "glob \<Rightarrow> glob" where
  "view_glob g = g\<lparr>g_folded := False, g_vars := (if g_task g = [] then None else Some (flat_view (g_vars g)))\<rparr>"

definition good_glob :: "num_fmt \<Rightarrow> number set \<Rightarrow> glob \<Rightarrow> bool" where
  "good_glob f N g = (good_str (g_glob g) \<and> good_str (g_fingerprint g) \<and> good_str (g_from g)
     \<and> good_str (g_task g) \<and> good_vars f N (g_vars g) \<and> CHR 0x00 \<notin> set (g_from g)
     \<and> (g_group g \<noteq> 0 \<longrightarrow> g_from g = [] \<and> g_task g = []) \<and> (g_task g \<noteq> [] \<longrightarrow> g_from g = []))"

lemma good_marks: "good_str (CHR 0x00 # ''group'')" "good_str (CHR 0x00 # ''task'')"
  by (simp_all add: good_str_def fits_def)

lemma ucast_u32_inj: "(ucast (a :: u32) :: u64) = ucast b \<longleftrightarrow> a = b"
  by transfer simp

lemma glob_tail_decode:
  assumes inj: "inj_on (number_display f) N" and g: "good_glob f N x" "good_glob f N y"
  shows "((if g_group x \<noteq> 0 then enc_str (CHR 0x00 # ''group'') @ enc_u64 (ucast (g_group x))
      else if g_task x = [] then enc_str (g_from x)
      else enc_str (CHR 0x00 # ''task'') @ enc_str (g_task x) @ encode_vars_flat f (g_vars x)) @ s
    = (if g_group y \<noteq> 0 then enc_str (CHR 0x00 # ''group'') @ enc_u64 (ucast (g_group y))
      else if g_task y = [] then enc_str (g_from y)
      else enc_str (CHR 0x00 # ''task'') @ enc_str (g_task y) @ encode_vars_flat f (g_vars y)) @ t)
    \<longleftrightarrow> g_group x = g_group y \<and> g_from x = g_from y \<and> g_task x = g_task y
      \<and> (g_task x \<noteq> [] \<longrightarrow> flat_view (g_vars x) = flat_view (g_vars y)) \<and> s = t"
proof -
  have nul: "g_from x \<noteq> CHR 0x00 # r" "g_from y \<noteq> CHR 0x00 # r" "CHR 0x00 # r \<noteq> g_from x" "CHR 0x00 # r \<noteq> g_from y" for r
    using g unfolding good_glob_def by (metis list.set_intros(1))+
  have gs: "good_str (g_from x)" "good_str (g_from y)" "good_str (g_task x)" "good_str (g_task y)"
    "good_vars f N (g_vars x)" "good_vars f N (g_vars y)"
    using g by (simp_all add: good_glob_def)
  note d = str_code.decodable [OF good_marks(1) good_marks(1)] str_code.decodable [OF good_marks(2) good_marks(2)]
    str_code.decodable [OF good_marks(1) good_marks(2)] str_code.decodable [OF good_marks(2) good_marks(1)]
    str_code.decodable [OF gs(1) gs(2)] str_code.decodable [OF gs(3) gs(4)]
    str_code.decodable [OF gs(1) good_marks(1)] str_code.decodable [OF gs(1) good_marks(2)]
    str_code.decodable [OF good_marks(1) gs(2)] str_code.decodable [OF good_marks(2) gs(2)]
    u64_code.decodable ucast_u32_inj view_code.decodable [OF vars_flat_code [OF inj] gs(5,6)]
  consider "g_group x \<noteq> 0" "g_group y \<noteq> 0" | "g_group x \<noteq> 0" "g_group y = 0"
    | "g_group x = 0" "g_group y \<noteq> 0" | "g_group x = 0" "g_group y = 0" by blast
  then show ?thesis
    using g by cases (auto simp: d nul good_glob_def simp del: append_eq_append_conv)
qed

lemma glob_code:
  assumes "inj_on (number_display f) N"
  shows "view_code (encode_glob f) (good_glob f N) view_glob"
proof
  fix x y s t assume g: "good_glob f N x" "good_glob f N y"
  then have gs: "good_str (g_glob x)" "good_str (g_glob y)" "good_str (g_fingerprint x)" "good_str (g_fingerprint y)"
    by (simp_all add: good_glob_def)
  have "view_glob x = view_glob y \<longleftrightarrow> g_glob x = g_glob y \<and> g_negate x = g_negate y
      \<and> g_fingerprint x = g_fingerprint y \<and> g_group x = g_group y \<and> g_from x = g_from y \<and> g_task x = g_task y
      \<and> (g_task x \<noteq> [] \<longrightarrow> flat_view (g_vars x) = flat_view (g_vars y))"
    by (cases x; cases y) (auto simp: view_glob_def)
  then show "(encode_glob f x @ s = encode_glob f y @ t) \<longleftrightarrow> (view_glob x = view_glob y \<and> s = t)"
    unfolding encode_glob_def append_assoc
    by (simp only: str_code.decodable [OF gs(1,2)] str_code.decodable [OF gs(3,4)]
        bool_code.decodable glob_tail_decode [OF assms g] conj_assoc)
qed

definition good_precondition :: "precondition \<Rightarrow> bool" where
  "good_precondition p = (good_str (pc_sh p) \<and> good_str (pc_msg p))"

interpretation precondition_code: prefix_code encode_precondition good_precondition
proof
  fix x y :: precondition and s t assume "good_precondition x" "good_precondition y"
  then show "(encode_precondition x @ s = encode_precondition y @ t) \<longleftrightarrow> (x = y \<and> s = t)"
    by (cases x; cases y) (simp add: encode_precondition_def good_precondition_def str_code.decodable)
qed

definition good_required :: "vars_with_validation \<Rightarrow> bool" where
  "good_required v = (good_str (vv_name v) \<and> good_seq good_str (vv_enum_values v))"

interpretation required_code: prefix_code encode_required good_required
proof
  fix x y :: vars_with_validation and s t assume "good_required x" "good_required y"
  then show "(encode_required x @ s = encode_required y @ t) \<longleftrightarrow> (x = y \<and> s = t)"
    by (cases x; cases y) (simp add: encode_required_def good_required_def str_code.decodable slice_code.decodable)
qed

text \<open>The cache block: the credential and the restore policy are left out.\<close>

definition view_cache :: "cache \<Rightarrow> cache" where
  "view_cache c = c\<lparr>ca_api_key := [], ca_outside_links := None, ca_dialect := Go\<rparr>"

definition good_cache :: "cache \<Rightarrow> bool" where
  "good_cache c = (good_str (ca_inherit c) \<and> good_str (ca_if c) \<and> good_str (ca_url c) \<and> good_str (ca_lock c)
     \<and> good_str (ca_vk c) \<and> good_str (ca_namespace c) \<and> good_str (ca_ttl c) \<and> good_str (ca_lock_timeout c))"

interpretation cache_code: view_code encode_cache_body good_cache view_cache
proof
  fix x y :: cache and s t assume "good_cache x" "good_cache y"
  then show "(encode_cache_body x @ s = encode_cache_body y @ t) \<longleftrightarrow> (view_cache x = view_cache y \<and> s = t)"
    by (cases x; cases y)
       (simp add: encode_cache_body_def good_cache_def view_cache_def str_code.decodable opt_bool_code.decodable
         option.map_ident)
qed

definition good_location :: "location \<Rightarrow> bool" where
  "good_location l = (fits (l_line l) \<and> fits (l_column l) \<and> good_str (l_taskfile l))"

interpretation location_code: prefix_code encode_location_body good_location
proof
  fix x y :: location and s t assume "good_location x" "good_location y"
  then show "(encode_location_body x @ s = encode_location_body y @ t) \<longleftrightarrow> (x = y \<and> s = t)"
    by (cases x; cases y)
       (simp add: encode_location_body_def good_location_def str_code.decodable len_code.decodable
         del: append_eq_append_conv)
qed

section \<open>The encoding of a task\<close>

definition good_task :: "num_fmt \<Rightarrow> number set \<Rightarrow> task \<Rightarrow> bool" where
  "good_task f N t = (good_seq (good_dep f N) (t_setup t) \<and> good_seq (good_cmd f N) (t_cmds t)
     \<and> good_seq (good_dep f N) (t_deps t) \<and> good_str (t_label t) \<and> good_str (t_desc t)
     \<and> good_seq good_str (t_prompt t) \<and> good_str (t_summary t)
     \<and> pred_option (good_seq good_required) (t_requires t) \<and> good_seq good_str (t_aliases t)
     \<and> good_seq (good_glob f N) (t_sources t) \<and> good_seq (good_glob f N) (t_generates t)
     \<and> pred_option good_cache (t_cache t) \<and> good_seq good_precondition (t_preconditions t)
     \<and> good_seq good_str (t_dirs t) \<and> good_seq good_str (t_set t) \<and> good_seq good_str (t_shopt t)
     \<and> good_seq good_str (t_dotenv t) \<and> good_str (t_run t) \<and> good_seq good_platform (t_platforms t)
     \<and> good_str (t_if t) \<and> pred_option good_location (t_location t))"

text \<open>What the identity of a task keeps of it: every other field is reset.\<close>

definition hashed_view :: "task \<Rightarrow> task" where
  "hashed_view t = default_task\<lparr>t_setup := map view_dep (t_setup t), t_cmds := map view_cmd (t_cmds t),
     t_deps := map view_dep (t_deps t), t_label := t_label t, t_desc := t_desc t, t_prompt := t_prompt t,
     t_summary := t_summary t, t_requires := t_requires t, t_aliases := t_aliases t,
     t_sources := map view_glob (t_sources t), t_generates := map view_glob (t_generates t),
     t_cache := map_option view_cache (t_cache t), t_preconditions := t_preconditions t,
     t_dirs := t_dirs t, t_set := t_set t, t_shopt := t_shopt t, t_dotenv := t_dotenv t,
     t_silent := t_silent t, t_interactive := t_interactive t, t_internal := t_internal t,
     t_ignore_error := t_ignore_error t, t_run := t_run t, t_platforms := t_platforms t,
     t_if := t_if t, t_watch := t_watch t, t_location := t_location t, t_failfast := t_failfast t\<rparr>"

lemma task_code:
  assumes inj: "inj_on (number_display f) N"
  shows "view_code (encode_task f) (good_task f N) hashed_view"
proof
  fix x y s t assume g: "good_task f N x" "good_task f N y"
  note seqs = enc_seq_decodable [OF dep_code [OF inj]] enc_seq_decodable [OF cmd_code [OF inj]]
    enc_seq_decodable [OF glob_code [OF inj]] enc_seq_decodable [OF precondition_code.view_code_axioms]
    platforms_decode
  note opts = view_code.decodable [OF opt_view_code [OF view_code_seq [OF required_code.view_code_axioms]]]
    view_code.decodable [OF opt_view_code [OF cache_code.view_code_axioms]]
    view_code.decodable [OF opt_view_code [OF location_code.view_code_axioms]]
  note defs = encode_deps_def encode_cmds_def encode_globs_def encode_preconditions_def
    encode_platforms_def encode_requires_def encode_cache_def encode_location_def
  show "(encode_task f x @ s = encode_task f y @ t) \<longleftrightarrow> (hashed_view x = hashed_view y \<and> s = t)"
    using g unfolding good_task_def encode_task_def defs append_assoc hashed_view_def
    by (simp add: seqs opts str_code.decodable bool_code.decodable slice_code.decodable opt_bool_code.decodable
        option.map_ident default_task_def del: append_eq_append_conv)
qed

lemma call_entry_code:
  assumes "inj_on (number_display f) N"
  shows "prefix_code (encode_call_entry f) (good_entry f N)"
proof
  fix x y s t assume g: "good_entry f N x" "good_entry f N y"
  have v: "view_var a = view_var b \<and> v_dialect a = v_dialect b \<longleftrightarrow> a = b" for a b
    by (cases a; cases b) (auto simp: view_var_def)
  have tag: "((case c of Go \<Rightarrow> 0 | Jinja \<Rightarrow> (1::byte)) = (case d of Go \<Rightarrow> 0 | Jinja \<Rightarrow> 1)) \<longleftrightarrow> c = d" for c d
    by (cases c; cases d) simp_all
  show "(encode_call_entry f x @ s = encode_call_entry f y @ t) \<longleftrightarrow> (x = y \<and> s = t)"
    using g v [of "snd x" "snd y"]
    by (auto simp: encode_call_entry_def good_entry_def str_code.decodable enc_tag_def tag prod_eq_iff
        view_code.decodable [OF var_code [OF assms]])
qed

lemma encode_task_hashed:
  assumes "hashed_view t = hashed_view t'" "inj_on (number_display f) N" "good_task f N t" "good_task f N t'"
  shows "encode_task f t = encode_task f t'"
  using view_code.injective [OF task_code [OF assms(2)] assms(3,4)] assms(1) by simp

section \<open>Properties\<close>

text \<open>
  C10: the canonical encoding of a task is unambiguous. Two tasks have the same bytes exactly
  when they agree on every hashed field, for all tasks whose lengths fit their 64-bit frames,
  provided the printed form of the numbers that occur (by \<open>itoa\<close> and \<open>ryu\<close>) tells them
  apart.
\<close>

theorem encode_task_injective:
  assumes "inj_on (number_display f) N" "good_task f N t" "good_task f N t'"
  shows "encode_task f t = encode_task f t' \<longleftrightarrow> hashed_view t = hashed_view t'"
  using view_code.injective [OF task_code [OF assms(1)] assms(2,3)] .

lemma good_default_task: "good_task f N default_task"
  by (simp add: good_task_def default_task_def good_seq_def good_str_def fits_def)

theorem encode_task_injective_witness:
  "encode_task no_fmt (default_task\<lparr>t_run := ''once''\<rparr>) \<noteq> encode_task no_fmt default_task
   \<and> encode_task no_fmt (default_task\<lparr>t_prefix := ''p''\<rparr>) = encode_task no_fmt default_task"
proof -
  have inj: "inj_on (number_display no_fmt) {}" by simp
  have g: "good_task no_fmt {} (default_task\<lparr>t_run := ''once''\<rparr>)" "good_task no_fmt {} (default_task\<lparr>t_prefix := ''p''\<rparr>)"
    using good_default_task [of no_fmt "{}"] by (simp_all add: good_task_def good_str_def fits_def)
  show ?thesis
    using encode_task_injective [OF inj g(1) good_default_task] encode_task_injective [OF inj g(2) good_default_task]
    by (simp add: hashed_view_def default_task_def)
qed

text \<open>
  C20: the key of a call is unambiguous: two calls have the same key exactly when they name the
  same task with the same captures and the same variables, values and dialects, in the same
  order.
\<close>

theorem call_key_injective:
  assumes "inj_on (number_display f) N"
    and "good_str a" "good_str b" "good_seq good_str cs" "good_seq good_str ds"
    and "good_seq (good_entry f N) vs" "good_seq (good_entry f N) ws"
  shows "call_key f a cs vs = call_key f b ds ws \<longleftrightarrow> a = b \<and> cs = ds \<and> vs = ws"
  using assms(2-) enc_seq_decodable [OF call_entry_code [OF assms(1), unfolded prefix_code_def], of vs ws "[]" "[]"]
  by (simp add: call_key_def str_code.decodable slice_code.decodable)

theorem call_key_injective_witness:
  "call_key no_fmt ''build'' [''a''] [(''X'', default_var)] \<noteq> call_key no_fmt ''build'' [''a''] [(''X'', default_var\<lparr>v_dialect := Jinja\<rparr>)]"
  using call_key_injective [of no_fmt "{}" "''build''" "''build''" "[''a'']" "[''a'']" "[(''X'', default_var)]"
      "[(''X'', default_var\<lparr>v_dialect := Jinja\<rparr>)]"]
  by (simp add: good_seq_def good_str_def fits_def good_entry_def good_var_def default_var_def)

end
