(* ===== verification/Checksum.thy ===== *)
theory Checksum
  imports Hash_Encoding
begin

text \<open>
  The fingerprint checksum (\<open>fingerprint/checksum.rs\<close>) and the up-to-date checker built on
  it (\<open>fingerprint/sources_checksum.rs\<close>).

  The file system is a map from paths to nodes, stable while one reading lasts. The 128-bit
  xxHash3 (\<open>twox_hash\<close>) is the parameter \<open>xxh128\<close>; the pattern expansion
  \<open>hinted_globs\<close> is the parameter \<open>expand\<close>, given the file system it reads. The state
  directory maps a checksum file to its content, and says of each path whether the file there
  can be removed and how a write to it fails, if it does. Cancellation is not modelled: a
  reading runs to its end.
\<close>

section \<open>Entries and digests\<close>

datatype datum =
    DValue str
  | DSrcRule u32 bool str
  | DGenRule u32 bool str
  | DCmd u64 str

datatype kind = KFile | KLink

datatype hint = HFile | HLink | HUnknown

record entry =
  en_tag :: byte
  en_key :: str
  en_path :: str
  en_hint :: hint

datatype fnode = FRegular "byte list" | FLink "byte list" | FOther

type_synonym fs = "str \<Rightarrow> fnode option"

datatype io_error = NotFound | ChangedType | Unsupported | OtherError

definition byte_of :: "char \<Rightarrow> byte" where
  "byte_of c = of_char c"

definition put_bytes :: "str \<Rightarrow> byte list" where
  "put_bytes s = enc_len (length s) @ as_bytes s"

definition encode_rule :: "byte \<Rightarrow> u32 \<Rightarrow> bool \<Rightarrow> str \<Rightarrow> byte list" where
  "encode_rule tag grp negate glob = [tag] @ le_bytes 4 grp @ [if negate then 1 else 0] @ put_bytes glob"

fun datum_encode :: "datum \<Rightarrow> byte list" where
  "datum_encode (DValue v) = [byte_of CHR ''V''] @ put_bytes v"
| "datum_encode (DSrcRule g n s) = encode_rule (byte_of CHR ''S'') g n s"
| "datum_encode (DGenRule g n s) = encode_rule (byte_of CHR ''G'') g n s"
| "datum_encode (DCmd i c) = [byte_of CHR ''C''] @ le_bytes 8 i @ put_bytes c"

text \<open>Decimal digits, as \<open>format!\<close> prints an unsigned integer.\<close>

fun decimal :: "nat \<Rightarrow> str" where
  "decimal n = (if n < 10 then [char_of (48 + n)] else decimal (n div 10) @ [char_of (48 + n mod 10)])"

declare decimal.simps [simp del]

definition display_rule :: "str \<Rightarrow> u32 \<Rightarrow> bool \<Rightarrow> str \<Rightarrow> str" where
  "display_rule kind grp negate glob =
     (let neg = (if negate then ''!'' else [])
      in if grp = 0 then kind @ '':'' @ neg @ glob
         else kind @ ''@'' @ decimal (unat grp) @ '':'' @ neg @ glob)"

fun datum_display :: "datum \<Rightarrow> str" where
  "datum_display (DValue v) = ''value:'' @ v"
| "datum_display (DSrcRule g n s) = display_rule ''srcrule'' g n s"
| "datum_display (DGenRule g n s) = display_rule ''genrule'' g n s"
| "datum_display (DCmd i c) = ''cmd['' @ decimal (unat i) @ '']:'' @ c"

fun kind_tag :: "kind \<Rightarrow> byte" where
  "kind_tag KFile = byte_of CHR ''F''"
| "kind_tag KLink = byte_of CHR ''L''"

definition hinted_entry :: "str \<Rightarrow> str \<times> hint \<Rightarrow> entry" where
  "hinted_entry basedir fh = (case rel_str basedir (fst fh) of
     Some r \<Rightarrow> \<lparr>en_tag = byte_of CHR ''R'', en_key = r, en_path = fst fh, en_hint = snd fh\<rparr>
   | None \<Rightarrow> \<lparr>en_tag = byte_of CHR ''A'', en_key = fst fh, en_path = fst fh, en_hint = snd fh\<rparr>)"

definition entry_cmp :: "entry \<Rightarrow> entry \<Rightarrow> ordering" where
  "entry_cmp a b =
     (if en_tag a \<noteq> en_tag b then cmp (en_tag a) (en_tag b)
      else if en_key a \<noteq> en_key b then cmp (en_key a) (en_key b)
      else cmp (en_path a) (en_path b))"

definition hinted_entries :: "str \<Rightarrow> (str \<times> hint) list \<Rightarrow> entry list" where
  "hinted_entries basedir files = sort_by entry_cmp (map (hinted_entry basedir) files)"

type_synonym digest128 = "128 word"

definition digest_file :: "(byte list \<Rightarrow> digest128) \<Rightarrow> fs \<Rightarrow> str \<Rightarrow> (io_error, kind \<times> digest128) result" where
  "digest_file xxh128 fs path = (case fs path of
     None \<Rightarrow> Inl NotFound
   | Some (FRegular b) \<Rightarrow> Inr (KFile, xxh128 b)
   | Some (FLink t) \<Rightarrow> Inl ChangedType
   | Some FOther \<Rightarrow> Inl ChangedType)"

definition digest_inner :: "(byte list \<Rightarrow> digest128) \<Rightarrow> fs \<Rightarrow> str \<Rightarrow> hint \<Rightarrow> (io_error, kind \<times> digest128) result" where
  "digest_inner xxh128 fs path h = (case h of
     HFile \<Rightarrow> digest_file xxh128 fs path
   | HLink \<Rightarrow> (case fs path of
        None \<Rightarrow> Inl NotFound
      | Some (FLink t) \<Rightarrow> Inr (KLink, xxh128 t)
      | Some _ \<Rightarrow> Inl ChangedType)
   | HUnknown \<Rightarrow> (case fs path of
        None \<Rightarrow> Inl NotFound
      | Some (FLink t) \<Rightarrow> Inr (KLink, xxh128 t)
      | Some FOther \<Rightarrow> Inl Unsupported
      | Some (FRegular b) \<Rightarrow> digest_file xxh128 fs path))"

text \<open>\<open>digest_all\<close>: the digests in order, or the error of the first failing entry.\<close>

fun digest_all :: "(byte list \<Rightarrow> digest128) \<Rightarrow> fs \<Rightarrow> entry list \<Rightarrow> (io_error, (kind \<times> digest128) list) result" where
  "digest_all xxh128 fs [] = Inr []"
| "digest_all xxh128 fs (e # es) =
     try_bind (digest_inner xxh128 fs (en_path e) (en_hint e)) (\<lambda>d.
     try_bind (digest_all xxh128 fs es) (\<lambda>ds. Inr (d # ds)))"

section \<open>The checksum\<close>

definition VERSION :: "byte list" where
  "VERSION = as_bytes (''task-rs/fingerprint/v1'' @ [CHR 0x00])"

type_synonym entry_digest = "byte \<times> str \<times> kind \<times> digest128"

definition be_bytes :: "nat \<Rightarrow> 'a::len word \<Rightarrow> byte list" where
  "be_bytes n w = rev (le_bytes n w)"

definition encode_entry_digest :: "entry_digest \<Rightarrow> byte list" where
  "encode_entry_digest e = (case e of (tag, key, kind, d) \<Rightarrow>
     [tag] @ put_bytes key @ [kind_tag kind] @ be_bytes 16 d)"

definition encode_record :: "byte list \<Rightarrow> byte list" where
  "encode_record r = enc_len (length r) @ r"

definition combine_bytes :: "entry_digest list \<Rightarrow> datum list \<Rightarrow> byte list" where
  "combine_bytes entries data =
     VERSION @ enc_seq encode_entry_digest entries
     @ enc_seq encode_record (sort (map datum_encode data))"

definition hex_digit :: "nat \<Rightarrow> char" where
  "hex_digit n = (if n < 10 then char_of (48 + n) else char_of (87 + n))"

text \<open>\<open>{:032x}\<close>\<close>

definition hex32 :: "digest128 \<Rightarrow> str" where
  "hex32 w = map (\<lambda>i. hex_digit (unat (drop_bit (4 * i) w) mod 16)) (rev [0..<32])"

definition combine :: "(byte list \<Rightarrow> digest128) \<Rightarrow> entry_digest list \<Rightarrow> datum list \<Rightarrow> str" where
  "combine xxh128 entries data = hex32 (xxh128 (combine_bytes entries data))"

record snapshot =
  sn_hash :: str
  sn_entries :: "entry_digest list"

definition hinted_snapshot ::
  "(byte list \<Rightarrow> digest128) \<Rightarrow> fs \<Rightarrow> str \<Rightarrow> (str \<times> hint) list \<Rightarrow> datum list \<Rightarrow> (io_error, snapshot) result" where
  "hinted_snapshot xxh128 fs basedir files data =
     (let entries = hinted_entries basedir files
      in try_bind (digest_all xxh128 fs entries) (\<lambda>digests.
           let combined = map (\<lambda>(e, (k, d)). (en_tag e, en_key e, k, d)) (zip entries digests)
           in Inr \<lparr>sn_hash = combine xxh128 combined data, sn_entries = combined\<rparr>))"

definition hinted_checksum ::
  "(byte list \<Rightarrow> digest128) \<Rightarrow> fs \<Rightarrow> str \<Rightarrow> (str \<times> hint) list \<Rightarrow> datum list \<Rightarrow> (io_error, str) result" where
  "hinted_checksum xxh128 fs basedir files data =
     map_sum id sn_hash (hinted_snapshot xxh128 fs basedir files data)"

text \<open>The entries by tag and key, a later one replacing an earlier one.\<close>

definition entry_index :: "snapshot \<Rightarrow> byte \<times> str \<Rightarrow> (kind \<times> digest128) option" where
  "entry_index s = map_of (map (\<lambda>(tag, key, k, d). ((tag, key), (k, d))) (rev (sn_entries s)))"

definition snapshot_changed :: "snapshot \<Rightarrow> snapshot \<Rightarrow> str list" where
  "snapshot_changed a b =
     (let ids = (\<lambda>s. map (\<lambda>(tag, key, _, _). (tag, key)) (sn_entries s));
          lost = filter (\<lambda>k. entry_index b k \<noteq> entry_index a k) (ids a);
          gained = filter (\<lambda>k. entry_index a k = None) (ids b)
      in remdups_adj (sort (map snd (lost @ gained))))"

section \<open>The checker\<close>

record spec =
  sp_dir :: str
  sp_has_sources :: bool
  sp_sources :: "glob list"
  sp_data :: "datum list"
  sp_generates :: "glob list"

record checker =
  ck_temp_dir :: str
  ck_task :: task
  ck_spec :: spec
  ck_source_hash :: str
  ck_pre_exec :: "snapshot option"

record post_run =
  po_sources :: "snapshot option"
  po_generates :: "(io_error, str) result"

record recorded =
  rc_sources :: str
  rc_generates :: str

text \<open>What a reading depends on: the hashes, the expansion of patterns and the files.\<close>

record reader =
  rd_xxh128 :: "byte list \<Rightarrow> digest128"
  rd_xxh3 :: "byte list \<Rightarrow> str"
  rd_fmt :: num_fmt
  rd_expand :: "fs \<Rightarrow> str \<Rightarrow> glob list \<Rightarrow> (io_error, (str \<times> hint) list) result"

text \<open>
  The disk: the tree and the files of the state directory, with the faults of those. A file may
  refuse to be removed for another reason than being absent; a write may fail to open the file,
  or fail once it has replaced the content by the first bytes of the new one.
\<close>

datatype write_fault = NotOpened io_error | CutAfter nat io_error

record disk =
  dk_fs :: fs
  dk_state :: "str \<Rightarrow> str option"
  dk_unremovable :: "str \<Rightarrow> bool"
  dk_write_fault :: "str \<Rightarrow> write_fault option"

text \<open>\<open>std::fs::remove_file\<close> and \<open>std::fs::write\<close> in the state directory.\<close>

definition remove_file :: "str \<Rightarrow> disk \<Rightarrow> (io_error, unit) result \<times> disk" where
  "remove_file p dk =
     (if dk_unremovable dk p then (Inl OtherError, dk)
      else if dk_state dk p = None then (Inl NotFound, dk)
      else (Inr (), dk\<lparr>dk_state := (dk_state dk)(p := None)\<rparr>))"

definition write_file :: "str \<Rightarrow> str \<Rightarrow> disk \<Rightarrow> (io_error, unit) result \<times> disk" where
  "write_file p content dk = (case dk_write_fault dk p of
     None \<Rightarrow> (Inr (), dk\<lparr>dk_state := (dk_state dk)(p \<mapsto> content)\<rparr>)
   | Some (NotOpened e) \<Rightarrow> (Inl e, dk)
   | Some (CutAfter n e) \<Rightarrow> (Inl e, dk\<lparr>dk_state := (dk_state dk)(p \<mapsto> take n content)\<rparr>))"

definition sources_snapshot :: "reader \<Rightarrow> fs \<Rightarrow> spec \<Rightarrow> (io_error, snapshot) result" where
  "sources_snapshot rd fs sp = try_bind (rd_expand rd fs (sp_dir sp) (sp_sources sp)) (\<lambda>files.
     hinted_snapshot (rd_xxh128 rd) fs (sp_dir sp) files (sp_data sp))"

definition generates_checksum :: "reader \<Rightarrow> fs \<Rightarrow> spec \<Rightarrow> (io_error, str) result" where
  "generates_checksum rd fs sp = try_bind (rd_expand rd fs (sp_dir sp) (sp_generates sp)) (\<lambda>files.
     hinted_checksum (rd_xxh128 rd) fs (sp_dir sp) files [])"

text \<open>\<open>str::trim\<close>: the UTF-8 encodings of the characters with the White\_Space property.\<close>

definition whitespace :: "str list" where
  "whitespace = [[CHR 0x09], [CHR 0x0A], [CHR 0x0B], [CHR 0x0C],
     [CHR 0x0D], [CHR 0x20], [CHR 0xC2, CHR 0x85], [CHR 0xC2, CHR 0xA0],
     [CHR 0xE1, CHR 0x9A, CHR 0x80], [CHR 0xE2, CHR 0x80, CHR 0x80], [CHR 0xE2, CHR 0x80, CHR 0x81], [CHR 0xE2, CHR 0x80, CHR 0x82],
     [CHR 0xE2, CHR 0x80, CHR 0x83], [CHR 0xE2, CHR 0x80, CHR 0x84], [CHR 0xE2, CHR 0x80, CHR 0x85], [CHR 0xE2, CHR 0x80, CHR 0x86],
     [CHR 0xE2, CHR 0x80, CHR 0x87], [CHR 0xE2, CHR 0x80, CHR 0x88], [CHR 0xE2, CHR 0x80, CHR 0x89], [CHR 0xE2, CHR 0x80, CHR 0x8A],
     [CHR 0xE2, CHR 0x80, CHR 0xA8], [CHR 0xE2, CHR 0x80, CHR 0xA9], [CHR 0xE2, CHR 0x80, CHR 0xAF], [CHR 0xE2, CHR 0x81, CHR 0x9F],
     [CHR 0xE3, CHR 0x80, CHR 0x80]]"

fun strip_ws :: "str list \<Rightarrow> str \<Rightarrow> str option" where
  "strip_ws [] s = None"
| "strip_ws (w # ws) s = (if w \<noteq> [] \<and> starts_with s w then Some (drop (length w) s) else strip_ws ws s)"

lemma strip_ws_shorter: "strip_ws ws s = Some t \<Longrightarrow> length t < length s"
proof (induction ws)
  case (Cons w ws)
  then show ?case by (cases s) (auto simp: starts_with_def split: if_splits)
qed simp

function trim_front :: "str list \<Rightarrow> str \<Rightarrow> str" where
  "trim_front ws s = (case strip_ws ws s of None \<Rightarrow> s | Some t \<Rightarrow> trim_front ws t)"
  by pat_completeness auto
termination
  by (relation "measure (length \<circ> snd)") (auto dest: strip_ws_shorter)

declare trim_front.simps [simp del]

definition trim :: "str \<Rightarrow> str" where
  "trim s = rev (trim_front (map rev whitespace) (rev (trim_front whitespace s)))"

definition newline :: char where
  "newline = CHR 0x0A"

definition split_hashes :: "str \<Rightarrow> str \<times> str" where
  "split_hashes stored = (let trimmed = trim stored
     in case split_once newline trimmed of
          Some (s, g) \<Rightarrow> (s, g)
        | None \<Rightarrow> (trimmed, []))"

definition spec_up_to_date :: "reader \<Rightarrow> disk \<Rightarrow> str \<Rightarrow> spec \<Rightarrow> (io_error, snapshot \<times> bool) result" where
  "spec_up_to_date rd dk file sp = try_bind (sources_snapshot rd (dk_fs dk) sp) (\<lambda>sources.
     let stored = (case dk_state dk file of Some s \<Rightarrow> s | None \<Rightarrow> []);
         (old_sources, old_generates) = split_hashes stored
     in try_bind (generates_checksum rd (dk_fs dk) sp) (\<lambda>generates.
          Inr (sources, old_sources = sn_hash sources \<and> old_generates = generates)))"

definition spec_post_run :: "reader \<Rightarrow> fs \<Rightarrow> spec \<Rightarrow> (io_error, post_run) result" where
  "spec_post_run rd fs sp =
     (if \<not> sp_has_sources sp then Inr \<lparr>po_sources = None, po_generates = Inr []\<rparr>
      else try_bind (sources_snapshot rd fs sp) (\<lambda>sources.
        Inr \<lparr>po_sources = Some sources, po_generates = generates_checksum rd fs sp\<rparr>))"

definition rel_glob :: "str \<Rightarrow> str \<Rightarrow> str" where
  "rel_glob dir g = (case rel_str dir g of Some r \<Rightarrow> r | None \<Rightarrow> g)"

definition value_source :: "glob \<Rightarrow> str option" where
  "value_source g = strip_prefix ''value:'' (g_glob g)"

definition serialize_cmd :: "nat \<Rightarrow> cmd \<Rightarrow> datum" where
  "serialize_cmd idx c = DCmd (of_nat idx) (c_cmd c)"

definition display_cmp :: "datum \<Rightarrow> datum \<Rightarrow> ordering" where
  "display_cmp a b = cmp (datum_display a) (datum_display b)"

definition build_checksum_data :: "str \<Rightarrow> task \<Rightarrow> glob list \<times> datum list" where
  "build_checksum_data dir t =
     (let sources = filter (\<lambda>s. value_source s = None) (t_sources t);
          src = map (\<lambda>s. case value_source s of
                  Some v \<Rightarrow> DValue v
                | None \<Rightarrow> DSrcRule (g_group s) (g_negate s) (rel_glob dir (g_glob s))) (t_sources t);
          cmds = map (\<lambda>(i, c). serialize_cmd i c) (enumerate 0 (t_raw_cmds t));
          gens = map (\<lambda>g. DGenRule (g_group g) (g_negate g) (rel_glob dir (g_glob g))) (t_generates t)
      in (sources, sort_by display_cmp (src @ cmds @ gens)))"

definition checker_new :: "str \<Rightarrow> task \<Rightarrow> checker" where
  "checker_new temp_dir t =
     (let dir = compute_dir t; (sources, data) = build_checksum_data dir t
      in \<lparr>ck_temp_dir = temp_dir, ck_task = t,
          ck_spec = \<lparr>sp_dir = dir, sp_has_sources = t_sources t \<noteq> [], sp_sources = sources,
                     sp_data = data, sp_generates = t_generates t\<rparr>,
          ck_source_hash = t_source_hash t, ck_pre_exec = None\<rparr>)"

definition preserved_char :: "char \<Rightarrow> bool" where
  "preserved_char c = (let n = (of_char c :: nat)
     in 48 \<le> n \<and> n \<le> 57 \<or> 65 \<le> n \<and> n \<le> 90 \<or> 97 \<le> n \<and> n \<le> 122
        \<or> c \<in> set ([CHR ''['', CHR 0x5C, CHR '']'', CHR ''^'', CHR ''_'', CHR 0x60]))"

text \<open>\<open>normalize_filename\<close>: one dash per character outside the set, so UTF-8 continuation bytes vanish.\<close>

definition normalize_filename :: "str \<Rightarrow> str" where
  "normalize_filename f =
     map (\<lambda>c. if preserved_char c then c else CHR ''-'')
       (filter (\<lambda>c. \<not> (128 \<le> (of_char c :: nat) \<and> (of_char c :: nat) < 192)) f)"

text \<open>The \<open>HashError\<close> this passes on is never constructed (\<open>hash.rs\<close>), so the path is always there.\<close>

definition checksum_file_path :: "reader \<Rightarrow> checker \<Rightarrow> str" where
  "checksum_file_path rd ck = ck_temp_dir ck @ ''/checksum/'' @
     normalize_filename (local_name (ck_task ck)) @ ''-'' @ fingerprint (rd_xxh3 rd) (rd_fmt rd) (ck_task ck)"

definition adopt_source_value :: "str \<Rightarrow> checker \<Rightarrow> checker" where
  "adopt_source_value v ck =
     (if ck_source_hash ck = [] \<and> sp_has_sources (ck_spec ck) then ck\<lparr>ck_source_hash := v\<rparr> else ck)"

definition is_up_to_date :: "reader \<Rightarrow> disk \<Rightarrow> checker \<Rightarrow> (io_error, bool \<times> checker) result" where
  "is_up_to_date rd dk ck =
     (if \<not> sp_has_sources (ck_spec ck) then Inr (False, ck)
      else try_bind (spec_up_to_date rd dk (checksum_file_path rd ck) (ck_spec ck)) (\<lambda>(sources, ok).
        Inr (ok, (adopt_source_value (sn_hash sources) ck)\<lparr>ck_pre_exec := Some sources\<rparr>)))"

definition checker_post_run :: "reader \<Rightarrow> fs \<Rightarrow> checker \<Rightarrow> (io_error, post_run) result" where
  "checker_post_run rd fs ck = spec_post_run rd fs (ck_spec ck)"

definition drifted :: "checker \<Rightarrow> post_run \<Rightarrow> bool" where
  "drifted ck post = (case (ck_pre_exec ck, po_sources post) of
     (Some pre, Some now) \<Rightarrow> sn_hash pre \<noteq> sn_hash now
   | _ \<Rightarrow> False)"

definition changed_sources :: "checker \<Rightarrow> post_run \<Rightarrow> str list" where
  "changed_sources ck post = (case (ck_pre_exec ck, po_sources post) of
     (Some pre, Some now) \<Rightarrow> snapshot_changed pre now
   | _ \<Rightarrow> [])"

text \<open>The failure to create the directory is dropped; the write that follows fails then.\<close>

definition write_state :: "reader \<Rightarrow> checker \<Rightarrow> str \<Rightarrow> str \<Rightarrow> disk \<Rightarrow> (io_error, unit) result \<times> disk" where
  "write_state rd ck sources generates =
     write_file (checksum_file_path rd ck) (sources @ [newline] @ generates @ [newline])"

definition publish :: "reader \<Rightarrow> checker \<Rightarrow> post_run \<Rightarrow> disk \<Rightarrow> (io_error, recorded option) result \<times> disk" where
  "publish rd ck post dk = (case po_sources post of
     None \<Rightarrow> (Inr None, dk)
   | Some sources \<Rightarrow> (case po_generates post of
       Inl e \<Rightarrow> (Inl e, dk)
     | Inr g \<Rightarrow> (case write_state rd ck (sn_hash sources) g dk of
         (Inl e, dk') \<Rightarrow> (Inl e, dk')
       | (Inr _, dk') \<Rightarrow> (Inr (Some \<lparr>rc_sources = sn_hash sources, rc_generates = g\<rparr>), dk'))))"

definition source_value :: "reader \<Rightarrow> fs \<Rightarrow> checker \<Rightarrow> checker" where
  "source_value rd fs ck =
     (if ck_source_hash ck = [] \<and> sp_has_sources (ck_spec ck)
      then ck\<lparr>ck_source_hash := (case sources_snapshot rd fs (ck_spec ck) of Inr s \<Rightarrow> sn_hash s | Inl _ \<Rightarrow> [])\<rparr>
      else ck)"

definition source_value_is_the_reading :: "checker \<Rightarrow> bool" where
  "source_value_is_the_reading ck = (case ck_pre_exec ck of
     Some pre \<Rightarrow> sn_hash pre = ck_source_hash ck | None \<Rightarrow> False)"

definition set_up_to_date_with_generates ::
  "reader \<Rightarrow> checker \<Rightarrow> str \<Rightarrow> disk \<Rightarrow> (io_error, unit) result \<times> disk" where
  "set_up_to_date_with_generates rd ck generates dk =
     (if \<not> sp_has_sources (ck_spec ck) then (Inr (), dk)
      else case sources_snapshot rd (dk_fs dk) (ck_spec ck) of
        Inl e \<Rightarrow> (Inl e, dk)
      | Inr s \<Rightarrow> write_state rd ck (sn_hash s) generates dk)"

definition on_error :: "reader \<Rightarrow> checker \<Rightarrow> disk \<Rightarrow> (io_error, unit) result \<times> disk" where
  "on_error rd ck dk =
     (if \<not> sp_has_sources (ck_spec ck) then (Inr (), dk)
      else case remove_file (checksum_file_path rd ck) dk of
        (Inr _, dk') \<Rightarrow> (Inr (), dk')
      | (Inl NotFound, dk') \<Rightarrow> (Inr (), dk')
      | (Inl e, dk') \<Rightarrow> (Inl e, dk'))"

section \<open>The state file\<close>

definition hex_chars :: str where
  "hex_chars = ''0123456789abcdef''"

lemma hex_digit_mem: "n < 16 \<Longrightarrow> hex_digit n \<in> set hex_chars"
proof -
  assume "n < 16"
  then have "n \<in> set [0..<16]" by simp
  moreover have "\<forall>n\<in>set [0..<16]. hex_digit n \<in> set hex_chars" by code_simp
  ultimately show ?thesis by blast
qed

lemma hex32_chars: "set (hex32 w) \<subseteq> set hex_chars"
  by (auto simp: hex32_def intro!: hex_digit_mem)

lemma length_hex32 [simp]: "length (hex32 w) = 32"
  by (simp add: hex32_def)

lemma strip_ws_None:
  assumes "list_all (\<lambda>w. w = [] \<or> hd w \<noteq> c) ws"
  shows "strip_ws ws (c # s) = None"
  using assms
proof (induction ws)
  case (Cons w ws)
  then show ?case by (cases w) (auto simp: starts_with_def)
qed simp

lemma hex_not_whitespace:
  assumes "c \<in> set hex_chars"
  shows "list_all (\<lambda>w. w = [] \<or> hd w \<noteq> c) whitespace" "list_all (\<lambda>w. w = [] \<or> hd w \<noteq> c) (map rev whitespace)"
proof -
  have "\<forall>c\<in>set hex_chars. list_all (\<lambda>w. w = [] \<or> hd w \<noteq> c) whitespace
    \<and> list_all (\<lambda>w. w = [] \<or> hd w \<noteq> c) (map rev whitespace)"
    by (simp add: hex_chars_def whitespace_def)
  with assms show "list_all (\<lambda>w. w = [] \<or> hd w \<noteq> c) whitespace"
    "list_all (\<lambda>w. w = [] \<or> hd w \<noteq> c) (map rev whitespace)" by blast+
qed

lemma trim_front_hex:
  assumes "c \<in> set hex_chars"
  shows "trim_front whitespace (c # s) = c # s" "trim_front (map rev whitespace) (c # s) = c # s"
  by (subst trim_front.simps, simp only: strip_ws_None [OF hex_not_whitespace(1) [OF assms]]
        strip_ws_None [OF hex_not_whitespace(2) [OF assms]] option.case)+

lemma trim_front_newline:
  assumes "c \<in> set hex_chars"
  shows "trim_front (map rev whitespace) (newline # c # s) = c # s"
proof -
  have "strip_ws (map rev whitespace) (newline # t) = Some t" for t
    by (simp add: whitespace_def newline_def starts_with_def)
  then show ?thesis by (subst trim_front.simps) (simp add: trim_front_hex [OF assms])
qed

lemma split_hashes_roundtrip:
  assumes "set s \<subseteq> set hex_chars" "set g \<subseteq> set hex_chars" "s \<noteq> []" "g \<noteq> []"
  shows "split_hashes (s @ [newline] @ g @ [newline]) = (s, g)"
proof -
  obtain c s' where s: "s = c # s'" using assms(3) by (cases s) auto
  obtain g' e where g: "g = g' @ [e]" using assms(4) by (cases g rule: rev_cases) auto
  have c: "c \<in> set hex_chars" and e: "e \<in> set hex_chars" using assms(1,2) s g by auto
  have "trim (s @ [newline] @ g @ [newline]) = s @ [newline] @ g"
    using trim_front_hex(1) [OF c, of "s' @ [newline] @ g @ [newline]"]
      trim_front_newline [OF e, of "rev g' @ [newline] @ rev s"]
    by (simp add: trim_def s g)
  moreover have "newline \<notin> set s" using assms(1) by (auto simp: newline_def hex_chars_def)
  ultimately show ?thesis
    using split_once_Some [of newline "s @ [newline] @ g" s g] by (simp add: split_hashes_def Let_def)
qed

lemma split_hashes_Nil: "split_hashes [] = ([], [])"
proof -
  have "strip_ws ws [] = None" for ws by (induction ws) (auto simp: starts_with_def)
  then have "trim [] = []" by (simp add: trim_def trim_front.simps)
  then show ?thesis by (simp add: split_hashes_def)
qed

lemma snapshot_hash_hex:
  assumes "hinted_snapshot h fs dir files data = Inr s"
  shows "set (sn_hash s) \<subseteq> set hex_chars \<and> sn_hash s \<noteq> []"
proof -
  obtain w where "sn_hash s = hex32 w"
    using assms by (auto simp: hinted_snapshot_def combine_def Let_def)
  then show ?thesis using hex32_chars [of w] length_hex32 [of w] by (metis length_0_conv zero_neq_numeral)
qed

lemma sources_snapshot_hex:
  "sources_snapshot rd fs sp = Inr s \<Longrightarrow> set (sn_hash s) \<subseteq> set hex_chars \<and> sn_hash s \<noteq> []"
  by (auto simp: sources_snapshot_def dest: snapshot_hash_hex)

lemma map_sum_InrE: "map_sum f h r = Inr y \<Longrightarrow> (\<And>x. r = Inr x \<Longrightarrow> y = h x \<Longrightarrow> P) \<Longrightarrow> P"
  by (cases r) auto

lemma generates_checksum_hex:
  assumes "generates_checksum rd fs sp = Inr g"
  shows "set g \<subseteq> set hex_chars \<and> g \<noteq> []"
proof -
  obtain files s where "hinted_snapshot (rd_xxh128 rd) fs (sp_dir sp) files [] = Inr s" "g = sn_hash s"
    using assms by (auto simp: generates_checksum_def hinted_checksum_def elim: map_sum_InrE)
  then show ?thesis by (auto dest: snapshot_hash_hex)
qed

section \<open>The checksum record\<close>

lemma put_bytes_eq: "put_bytes = enc_str"
  by (rule ext) (simp add: put_bytes_def enc_str_def)

definition good_datum :: "datum \<Rightarrow> bool" where
  "good_datum d = (case d of DValue v \<Rightarrow> good_str v | DSrcRule _ _ s \<Rightarrow> good_str s
     | DGenRule _ _ s \<Rightarrow> good_str s | DCmd _ c \<Rightarrow> good_str c)"

lemma byte_of_inj [simp]: "byte_of c = byte_of d \<longleftrightarrow> c = d"
  by (simp add: byte_of_def of_char_byte_inj)

lemma encode_rule_decode:
  assumes "good_str a" "good_str b"
  shows "(encode_rule x g n a @ s = encode_rule y h m b @ t) \<longleftrightarrow> x = y \<and> g = h \<and> n = m \<and> a = b \<and> s = t"
proof -
  have "(le_bytes 4 g @ u = le_bytes 4 h @ w) \<longleftrightarrow> g = h \<and> u = w" for u w
    by (rule le_bytes_append) simp
  then show ?thesis using str_code.decodable [OF assms]
    by (auto simp: encode_rule_def put_bytes_eq simp del: append_eq_append_conv)
qed

interpretation datum_code: prefix_code datum_encode good_datum
proof
  fix x y s t assume g: "good_datum x" "good_datum y"
  have le: "(le_bytes 8 (i :: u64) @ u = le_bytes 8 j @ w) \<longleftrightarrow> i = j \<and> u = w" for i j u w
    by (rule le_bytes_append) simp
  show "(datum_encode x @ s = datum_encode y @ t) \<longleftrightarrow> (x = y \<and> s = t)"
  proof (cases x; cases y)
    fix a b assume "x = DValue a" "y = DValue b"
    with g show ?thesis by (auto simp: good_datum_def put_bytes_eq str_code.decodable)
  next
    fix i a j b assume "x = DCmd i a" "y = DCmd j b"
    with g show ?thesis
      by (auto simp: good_datum_def put_bytes_eq str_code.decodable le simp del: append_eq_append_conv)
  qed (use g in \<open>auto simp: good_datum_def encode_rule_decode simp del: append_eq_append_conv;
        simp add: encode_rule_def\<close>)+
qed

definition good_record :: "byte list \<Rightarrow> bool" where
  "good_record r = fits (length r)"

interpretation record_code: prefix_code encode_record good_record
proof
  fix a b s t assume "good_record a" "good_record b"
  then show "(encode_record a @ s = encode_record b @ t) \<longleftrightarrow> (a = b \<and> s = t)"
    by (auto simp: encode_record_def good_record_def decode_iff)
qed

definition good_entry_digest :: "entry_digest \<Rightarrow> bool" where
  "good_entry_digest e = good_str (fst (snd e))"

lemma be_bytes_append:
  fixes v w :: "'a::len word"
  assumes "LENGTH('a) \<le> 8 * n"
  shows "(be_bytes n v @ s = be_bytes n w @ t) \<longleftrightarrow> (v = w \<and> s = t)"
  using le_bytes_inj [OF _ assms, of v w] by (auto simp: be_bytes_def)

interpretation entry_digest_code: prefix_code encode_entry_digest good_entry_digest
proof
  fix x y :: entry_digest and s t assume g: "good_entry_digest x" "good_entry_digest y"
  obtain a k c d where x: "x = (a, k, c, d)" by (cases x) auto
  obtain a' k' c' d' where y: "y = (a', k', c', d')" by (cases y) auto
  have be: "(be_bytes 16 d @ u = be_bytes 16 d' @ w) \<longleftrightarrow> d = d' \<and> u = w" for u w
    by (rule be_bytes_append) simp
  have kt: "kind_tag c = kind_tag c' \<longleftrightarrow> c = c'" by (cases c; cases c') simp_all
  show "(encode_entry_digest x @ s = encode_entry_digest y @ t) \<longleftrightarrow> (x = y \<and> s = t)"
    using g by (auto simp: x y encode_entry_digest_def good_entry_digest_def put_bytes_eq
        str_code.decodable be kt simp del: append_eq_append_conv)
qed

lemma mset_map_inj_on:
  assumes "inj_on f (set xs \<union> set ys)"
  shows "mset (map f xs) = mset (map f ys) \<longleftrightarrow> mset xs = mset ys"
proof
  let ?g = "inv_into (set xs \<union> set ys) f"
  have id: "map (?g \<circ> f) zs = zs" if "set zs \<subseteq> set xs \<union> set ys" for zs
    by (rule map_idI) (use assms that in \<open>auto intro: inv_into_f_f\<close>)
  assume "mset (map f xs) = mset (map f ys)"
  then have "image_mset ?g (mset (map f xs)) = image_mset ?g (mset (map f ys))" by simp
  then have "mset (map (?g \<circ> f) xs) = mset (map (?g \<circ> f) ys)" by (simp flip: mset_map)
  then show "mset xs = mset ys" by (simp only: id Un_upper1 Un_upper2)
next
  assume "mset xs = mset ys"
  then show "mset (map f xs) = mset (map f ys)" by simp
qed

lemma sort_eq_iff: "sort xs = sort ys \<longleftrightarrow> mset xs = mset (ys :: 'a::linorder list)"
  by (metis mset_sort properties_for_sort sorted_sort)

lemma sorted_data_eq:
  assumes "list_all good_datum ds" "list_all good_datum es"
  shows "sort (map datum_encode ds) = sort (map datum_encode es) \<longleftrightarrow> mset ds = mset es"
proof -
  have "inj_on datum_encode (set ds \<union> set es)"
    using assms by (intro inj_onI) (auto simp: list_all_iff datum_code.injective)
  then show ?thesis by (simp only: sort_eq_iff mset_map_inj_on)
qed

definition good_data :: "datum list \<Rightarrow> bool" where
  "good_data ds = (fits (length ds) \<and> list_all good_datum ds \<and> list_all (good_record \<circ> datum_encode) ds)"

definition stored_hashes :: "reader \<Rightarrow> disk \<Rightarrow> checker \<Rightarrow> str \<times> str" where
  "stored_hashes rd dk ck =
     split_hashes (case dk_state dk (checksum_file_path rd ck) of Some c \<Rightarrow> c | None \<Rightarrow> [])"

lemma is_up_to_date_Inr:
  assumes "sp_has_sources (ck_spec ck)"
  shows "is_up_to_date rd dk ck = Inr (ok, ck') \<longleftrightarrow>
    (\<exists>s g. sources_snapshot rd (dk_fs dk) (ck_spec ck) = Inr s \<and> generates_checksum rd (dk_fs dk) (ck_spec ck) = Inr g
       \<and> ok = (stored_hashes rd dk ck = (sn_hash s, g))
       \<and> ck' = (adopt_source_value (sn_hash s) ck)\<lparr>ck_pre_exec := Some s\<rparr>)"
proof -
  obtain a b where ab: "stored_hashes rd dk ck = (a, b)" by fastforce
  then show ?thesis
    using assms by (auto simp: is_up_to_date_def spec_up_to_date_def stored_hashes_def Let_def)
qed

lemma adopt_source_value_fields [simp]:
  "ck_spec (adopt_source_value v ck) = ck_spec ck" "ck_task (adopt_source_value v ck) = ck_task ck"
  "ck_temp_dir (adopt_source_value v ck) = ck_temp_dir ck"
  by (simp_all add: adopt_source_value_def)

lemma checksum_file_path_same:
  "ck_task ck' = ck_task ck \<Longrightarrow> ck_temp_dir ck' = ck_temp_dir ck \<Longrightarrow> checksum_file_path rd ck' = checksum_file_path rd ck"
  by (simp add: checksum_file_path_def)

text \<open>What the operations on the state file do.\<close>

lemma write_state_Inr:
  "write_state rd ck s g dk = (Inr u, dk') \<longleftrightarrow> dk_write_fault dk (checksum_file_path rd ck) = None
     \<and> dk' = dk\<lparr>dk_state := (dk_state dk)(checksum_file_path rd ck \<mapsto> s @ [newline] @ g @ [newline])\<rparr>"
  by (auto simp: write_state_def write_file_def split: option.splits write_fault.splits)

lemma on_error_result:
  assumes "sp_has_sources (ck_spec ck)"
  shows "on_error rd ck dk = (if dk_unremovable dk (checksum_file_path rd ck) then (Inl OtherError, dk)
     else (Inr (), dk\<lparr>dk_state := (dk_state dk)(checksum_file_path rd ck := None)\<rparr>))"
proof -
  have "dk\<lparr>dk_state := (dk_state dk)(p := None)\<rparr> = dk" if "dk_state dk p = None" for p
    using that by (simp add: fun_upd_idem)
  then show ?thesis using assms by (simp add: on_error_def remove_file_def)
qed

lemma stored_hashes_written:
  assumes "write_state rd ck (sn_hash s) g dk = (Inr u, dk')"
    and "sources_snapshot rd fs sp = Inr s" "generates_checksum rd fs sp = Inr g"
  shows "stored_hashes rd dk' ck = (sn_hash s, g) \<and> dk_fs dk' = dk_fs dk"
  using assms(1) split_hashes_roundtrip sources_snapshot_hex [OF assms(2)] generates_checksum_hex [OF assms(3)]
  by (simp add: stored_hashes_def write_state_Inr)

lemma publish_Inr:
  assumes "sp_has_sources (ck_spec ck)" "checker_post_run rd fs ck = Inr post" "publish rd ck post dk = (Inr rec, dk')"
  obtains s g where "sources_snapshot rd fs (ck_spec ck) = Inr s" "generates_checksum rd fs (ck_spec ck) = Inr g"
    "write_state rd ck (sn_hash s) g dk = (Inr (), dk')"
  using assms
  by (auto simp: publish_def checker_post_run_def spec_post_run_def split: sum.splits prod.splits)

lemma publish_records:
  assumes "sp_has_sources (ck_spec ck)" "checker_post_run rd (dk_fs dk) ck = Inr post" "publish rd ck post dk = (Inr rec, dk')"
  shows "\<exists>ck'. is_up_to_date rd dk' ck = Inr (True, ck')"
proof -
  obtain s g where sg: "sources_snapshot rd (dk_fs dk) (ck_spec ck) = Inr s"
    "generates_checksum rd (dk_fs dk) (ck_spec ck) = Inr g" "write_state rd ck (sn_hash s) g dk = (Inr (), dk')"
    by (rule publish_Inr [OF assms])
  then show ?thesis
    using stored_hashes_written [OF sg(3,1,2)] by (auto simp: is_up_to_date_Inr [OF assms(1)])
qed

lemma removed_is_stale:
  assumes "sp_has_sources (ck_spec ck)" "dk_state dk (checksum_file_path rd ck) = None"
    and "is_up_to_date rd dk ck = Inr (ok, ck')"
  shows "\<not> ok"
  using assms(2,3)
  by (auto simp: is_up_to_date_Inr [OF assms(1)] stored_hashes_def split_hashes_Nil dest: sources_snapshot_hex)

section \<open>Properties\<close>

text \<open>
  C14: the record the fingerprint hashes is unambiguous. Two readings produce the same bytes
  exactly when they list the same entries (tag, path, kind and digest) in the same order and
  the same rules and commands, in whatever order those were given.
\<close>

theorem combine_bytes_injective:
  assumes "good_seq good_entry_digest es" "good_seq good_entry_digest es'" "good_data ds" "good_data ds'"
  shows "combine_bytes es ds = combine_bytes es' ds' \<longleftrightarrow> es = es' \<and> mset ds = mset ds'"
proof -
  have r: "good_seq good_record (sort (map datum_encode d))" if "good_data d" for d
    using that by (auto simp: good_data_def good_seq_def list_all_iff)
  have "combine_bytes es ds = combine_bytes es' ds' \<longleftrightarrow>
      es = es' \<and> sort (map datum_encode ds) = sort (map datum_encode ds')"
    using enc_seq_decodable [OF entry_digest_code.view_code_axioms assms(1,2)]
      view_code.injective [OF view_code_seq [OF record_code.view_code_axioms] r [OF assms(3)] r [OF assms(4)]]
    by (simp add: combine_bytes_def)
  then show ?thesis using assms(3,4) sorted_data_eq by (simp add: good_data_def)
qed

theorem combine_bytes_injective_witness:
  "combine_bytes [] [DValue ''a'', DValue ''b''] = combine_bytes [] [DValue ''b'', DValue ''a'']
   \<and> combine_bytes [] [DValue ''a''] \<noteq> combine_bytes [] [DCmd 0 ''a'']"
proof -
  have g: "good_data [DValue ''a'', DValue ''b'']" "good_data [DValue ''b'', DValue ''a'']"
    "good_data [DValue ''a'']" "good_data [DCmd 0 ''a'']"
    by (simp_all add: good_data_def good_datum_def good_str_def fits_def good_record_def put_bytes_def)
  have e: "good_seq good_entry_digest []" by (simp add: good_seq_def fits_def)
  show ?thesis
    using combine_bytes_injective [OF e e g(1,2)] combine_bytes_injective [OF e e g(3,4)] by simp
qed

text \<open>
  C15: the verdict of the up-to-date check. It is positive exactly when the task has sources
  and the state file holds, as two lines, the hashes of the sources and the generated files as
  they are now; the reading is kept for the drift check and becomes the run's source value
  unless one was chosen before.
\<close>

theorem is_up_to_date_verdict:
  assumes "is_up_to_date rd dk ck = Inr (ok, ck')"
  shows "(ok \<longleftrightarrow> sp_has_sources (ck_spec ck) \<and>
      (\<exists>s g. sources_snapshot rd (dk_fs dk) (ck_spec ck) = Inr s \<and> generates_checksum rd (dk_fs dk) (ck_spec ck) = Inr g
        \<and> stored_hashes rd dk ck = (sn_hash s, g)))
    \<and> (sp_has_sources (ck_spec ck) \<longrightarrow>
        (\<exists>s. sources_snapshot rd (dk_fs dk) (ck_spec ck) = Inr s \<and> ck_pre_exec ck' = Some s
          \<and> ck_source_hash ck' = (if ck_source_hash ck = [] then sn_hash s else ck_source_hash ck)))"
proof (cases "sp_has_sources (ck_spec ck)")
  case True
  with assms obtain s g where s: "sources_snapshot rd (dk_fs dk) (ck_spec ck) = Inr s"
    "generates_checksum rd (dk_fs dk) (ck_spec ck) = Inr g" "ok = (stored_hashes rd dk ck = (sn_hash s, g))"
    "ck' = (adopt_source_value (sn_hash s) ck)\<lparr>ck_pre_exec := Some s\<rparr>"
    unfolding is_up_to_date_Inr [OF True] by blast
  with True show ?thesis by (simp add: adopt_source_value_def)
next
  case False
  with assms show ?thesis by (simp add: is_up_to_date_def)
qed

text \<open>
  The sample of the witnesses: one source file, no generated one, toy hashes. Pattern
  expansion lists the named paths.
\<close>

definition sample_reader :: reader where
  "sample_reader = \<lparr>rd_xxh128 = (\<lambda>b. of_nat (length b)), rd_xxh3 = (\<lambda>_. ''0''), rd_fmt = no_fmt,
     rd_expand = (\<lambda>_ _ gs. Inr (map (\<lambda>g. (g_glob g, HUnknown)) gs))\<rparr>"

definition sample_disk :: disk where
  "sample_disk = \<lparr>dk_fs = (\<lambda>p. if p = ''/w/in'' then Some (FRegular [1, 2]) else None), dk_state = (\<lambda>_. None),
     dk_unremovable = (\<lambda>_. False), dk_write_fault = (\<lambda>_. None)\<rparr>"

definition sample_checker :: checker where
  "sample_checker = \<lparr>ck_temp_dir = ''/w/.task'', ck_task = default_task,
     ck_spec = \<lparr>sp_dir = ''/w'', sp_has_sources = True, sp_sources = [default_glob\<lparr>g_glob := ''/w/in''\<rparr>],
                sp_data = [], sp_generates = []\<rparr>, ck_source_hash = [], ck_pre_exec = None\<rparr>"

lemma sample_reads:
  "\<exists>s g. sources_snapshot sample_reader (dk_fs sample_disk) (ck_spec sample_checker) = Inr s
    \<and> generates_checksum sample_reader (dk_fs sample_disk) (ck_spec sample_checker) = Inr g"
  by (simp add: sources_snapshot_def generates_checksum_def hinted_checksum_def sample_reader_def sample_disk_def
      sample_checker_def hinted_snapshot_def hinted_entries_def hinted_entry_def digest_inner_def
      digest_file_def Let_def split: option.split)

lemma sample_checks: "\<exists>ok ck'. is_up_to_date sample_reader sample_disk sample_checker = Inr (ok, ck')"
  using sample_reads is_up_to_date_Inr [of sample_checker sample_reader sample_disk]
  by (simp add: sample_checker_def) blast

theorem is_up_to_date_verdict_witness:
  "\<exists>ck'. is_up_to_date sample_reader sample_disk sample_checker = Inr (False, ck') \<and> ck_pre_exec ck' \<noteq> None"
proof -
  obtain ok ck' where u: "is_up_to_date sample_reader sample_disk sample_checker = Inr (ok, ck')"
    using sample_checks by blast
  have "stored_hashes sample_reader sample_disk sample_checker = ([], [])"
    by (simp add: stored_hashes_def sample_disk_def split_hashes_Nil)
  moreover have "sn_hash s \<noteq> []"
    if "sources_snapshot sample_reader (dk_fs sample_disk) (ck_spec sample_checker) = Inr s" for s
    using sources_snapshot_hex [OF that] by simp
  moreover have "sp_has_sources (ck_spec sample_checker)" by (simp add: sample_checker_def)
  ultimately show ?thesis using is_up_to_date_verdict [OF u] u by auto
qed


text \<open>
  C9: publishing makes a task up to date and a failure makes it stale. After a run has recorded
  what it read, a check on the same files answers yes, whatever was stored before. After
  \<open>on_error\<close> has returned without an error, every check answers no, whatever has become of the
  tree, as long as the state file is as \<open>on_error\<close> left it; and an \<open>on_error\<close> that fails (a file
  that is absent is no failure) leaves the disk as it is.
\<close>

theorem publish_and_invalidate:
  assumes "sp_has_sources (ck_spec ck)"
  shows "(checker_post_run rd (dk_fs dk) ck = Inr post \<and> publish rd ck post dk = (Inr rec, dk')
      \<longrightarrow> (\<exists>ck'. is_up_to_date rd dk' ck = Inr (True, ck')))
    \<and> (on_error rd ck dk = (Inr (), dk')
         \<and> dk_state later (checksum_file_path rd ck) = dk_state dk' (checksum_file_path rd ck)
         \<and> is_up_to_date rd later ck = Inr (ok, ck') \<longrightarrow> \<not> ok)
    \<and> (on_error rd ck dk = (Inl e, dk') \<longrightarrow> dk' = dk \<and> e \<noteq> NotFound)"
  using publish_records [OF assms] on_error_result [OF assms, of rd dk] removed_is_stale [OF assms, of later rd ok ck']
  by (auto split: if_splits)

theorem publish_and_invalidate_witness:
  "\<exists>post rec dk' dk''. publish sample_reader sample_checker post sample_disk = (Inr rec, dk')
     \<and> (\<exists>ck'. is_up_to_date sample_reader dk' sample_checker = Inr (True, ck'))
     \<and> on_error sample_reader sample_checker dk' = (Inr (), dk'')
     \<and> (\<exists>ck'. is_up_to_date sample_reader dk'' sample_checker = Inr (False, ck'))"
proof -
  have h: "sp_has_sources (ck_spec sample_checker)" by (simp add: sample_checker_def)
  obtain s g where sg: "sources_snapshot sample_reader (dk_fs sample_disk) (ck_spec sample_checker) = Inr s"
    "generates_checksum sample_reader (dk_fs sample_disk) (ck_spec sample_checker) = Inr g"
    using sample_reads by blast
  let ?p = "checksum_file_path sample_reader sample_checker"
    and ?post = "\<lparr>po_sources = Some s, po_generates = Inr g\<rparr>"
  let ?dk = "sample_disk\<lparr>dk_state := (dk_state sample_disk)(?p \<mapsto> sn_hash s @ [newline] @ g @ [newline])\<rparr>"
  let ?dk' = "?dk\<lparr>dk_state := (dk_state ?dk)(?p := None)\<rparr>"
  have post: "checker_post_run sample_reader (dk_fs sample_disk) sample_checker = Inr ?post"
    using h sg by (simp add: checker_post_run_def spec_post_run_def)
  have "write_state sample_reader sample_checker (sn_hash s) g sample_disk = (Inr (), ?dk)"
    by (simp add: write_state_def write_file_def sample_disk_def)
  then have pub: "publish sample_reader sample_checker ?post sample_disk
      = (Inr (Some \<lparr>rc_sources = sn_hash s, rc_generates = g\<rparr>), ?dk)"
    by (simp add: publish_def)
  have err: "on_error sample_reader sample_checker ?dk = (Inr (), ?dk')"
    unfolding on_error_result [OF h] by (simp add: sample_disk_def)
  obtain ok ck' where later: "is_up_to_date sample_reader ?dk' sample_checker = Inr (ok, ck')"
    using sg by (auto simp: is_up_to_date_Inr [OF h])
  have "\<exists>ck'. is_up_to_date sample_reader ?dk sample_checker = Inr (True, ck')"
    using publish_and_invalidate [OF h] post pub by blast
  moreover have "\<not> ok"
    using publish_and_invalidate [OF h, where later = ?dk' and dk' = ?dk'] err later by blast
  with later have "is_up_to_date sample_reader ?dk' sample_checker = Inr (False, ck')" by simp
  ultimately show ?thesis using pub err by blast
qed

end
