(* ===== verification/Exec_Error.thy ===== *)
theory Exec_Error
  imports AstOps Checksum
begin

text \<open>
  The errors of the execution engine (\<open>crates/taskcore/src/executor/error.rs\<close>) and of the
  shell layer below it (\<open>execext.rs\<close>): their classes, the process exit code of each class,
  the exit code surfaced under \<open>--exit-code\<close>, and the two questions the engine asks of an
  error (is it a sandbox failure, was the run cancelled). Errors of components that are not
  modelled carry only their message. A message made by displaying an error is kept as the
  error it displays (\<open>Displayed\<close>); its text is not modelled.
\<close>

datatype exec_error =
    NonZeroExit "8 word"
  | ShellFailed str
  | ExecIo str
  | SandboxSetup str

datatype denied = DeniedCommand | DeniedCondition

datatype template_error = ChecksumUnavailable str | OtherTemplate str

datatype compiler_error = CompilerTemplate template_error | OtherCompiler str

datatype executor_error =
    ReaderError str
  | MergeError str
  | VersionCheck str str str
  | OutputError str
  | CompilerError compiler_error
  | CompileError compile_error
  | Completion executor_error
  | Shared executor_error
  | RequiresError requires_error
  | PreconditionError precondition_error
  | CyclicDependency "str list"
  | Exec exec_error
  | CacheError str
  | LoggerError str
  | TaskNotFound str str
  | TaskInternal str
  | TaskNameConflict str "str list"
  | TaskCalledTooManyTimes str
  | TaskRun str executor_error
  | SandboxMode str
  | SandboxDenied str denied
  | ConditionSandbox str str
  | Cancelled
  | Io message
and compile_error =
    CompileTaskNotFound str
  | ReferencedTaskNotFound str
  | ReferenceLimit str
  | CompileTaskNameConflict str str "str list" str "str list"
  | CompileTemplate template_error
  | CompileCompiler compiler_error
  | FromTask message
  | OtherCompile str
and message = Text str | IoMessage io_error | Displayed executor_error

fun compile_code :: "compile_error \<Rightarrow> int" where
  "compile_code (CompileTaskNotFound _) = 200"
| "compile_code (ReferencedTaskNotFound _) = 200"
| "compile_code (ReferenceLimit _) = 204"
| "compile_code (CompileTaskNameConflict _ _ _ _ _) = 203"
| "compile_code _ = 1"

fun code :: "executor_error \<Rightarrow> int" where
  "code (ReaderError _) = 100"
| "code (MergeError _) = 107"
| "code (Completion e) = code e"
| "code (Shared e) = code e"
| "code (VersionCheck _ _ _) = 105"
| "code (TaskNotFound _ _) = 200"
| "code (CompileError e) = compile_code e"
| "code (TaskRun _ _) = 201"
| "code (Exec _) = 201"
| "code (SandboxDenied _ _) = 201"
| "code (TaskInternal _) = 202"
| "code (TaskNameConflict _ _) = 203"
| "code (TaskCalledTooManyTimes _) = 204"
| "code (CyclicDependency _) = 204"
| "code Cancelled = 205"
| "code (RequiresError _) = 206"
| "code _ = 1"

fun task_exit_code :: "executor_error \<Rightarrow> int" where
  "task_exit_code (Exec (NonZeroExit c)) = uint c"
| "task_exit_code (TaskRun _ source) = task_exit_code source"
| "task_exit_code e = code e"

fun is_sandbox_failure :: "executor_error \<Rightarrow> bool" where
  "is_sandbox_failure (SandboxDenied _ _) = True"
| "is_sandbox_failure (ConditionSandbox _ _) = True"
| "is_sandbox_failure (TaskRun _ source) = is_sandbox_failure source"
| "is_sandbox_failure _ = False"

fun is_context_error :: "executor_error \<Rightarrow> bool" where
  "is_context_error Cancelled = True"
| "is_context_error (TaskRun _ source) = is_context_error source"
| "is_context_error _ = False"

text \<open>\<open>run.rs\<close>: a refused read of the pending checksum.\<close>

definition compiler_refuses :: "compiler_error \<Rightarrow> bool" where
  "compiler_refuses e = (case e of CompilerTemplate (ChecksumUnavailable _) \<Rightarrow> True | _ \<Rightarrow> False)"

definition refuses_checksum :: "executor_error \<Rightarrow> bool" where
  "refuses_checksum e = (case e of
     CompilerError c \<Rightarrow> compiler_refuses c
   | CompileError (CompileTemplate (ChecksumUnavailable _)) \<Rightarrow> True
   | CompileError (CompileCompiler c) \<Rightarrow> compiler_refuses c
   | _ \<Rightarrow> False)"

text \<open>\<open>run.rs\<close>: an error finding or compiling a task a reference reaches.\<close>

definition to_compile_error :: "executor_error \<Rightarrow> compile_error" where
  "to_compile_error e = (case e of
     TaskNotFound n _ \<Rightarrow> CompileTaskNotFound n
   | TaskNameConflict c ns \<Rightarrow> CompileTaskNameConflict [] [] [] c ns
   | CompileError c \<Rightarrow> c
   | other \<Rightarrow> FromTask (Displayed other))"

text \<open>
  \<open>run.rs\<close>: the owned error of a shared one. A sole owner gets the error itself; an error
  that is still shared is flattened to the message it displays.
\<close>

definition unwrap_arc :: "bool \<Rightarrow> executor_error \<Rightarrow> executor_error" where
  "unwrap_arc sole e = (if sole then e else Io (Displayed e))"

section \<open>Lemmas\<close>

text \<open>An error under the task names that wrapped it, outermost first.\<close>

definition wrapped :: "str list \<Rightarrow> executor_error \<Rightarrow> executor_error" where
  "wrapped names e = foldr TaskRun names e"

lemma wrapped_simps [simp]:
  "wrapped [] e = e" "wrapped (n # ns) e = TaskRun n (wrapped ns e)"
  by (simp_all add: wrapped_def)

lemma task_exit_code_wrapped [simp]: "task_exit_code (wrapped ns e) = task_exit_code e"
  by (induction ns) auto

lemma is_sandbox_failure_wrapped [simp]: "is_sandbox_failure (wrapped ns e) = is_sandbox_failure e"
  by (induction ns) auto

lemma is_context_error_wrapped [simp]: "is_context_error (wrapped ns e) = is_context_error e"
  by (induction ns) auto

lemma compile_code_range: "compile_code e \<in> {1, 200, 203, 204}"
  by (cases e) auto

lemma code_range:
  "code e \<in> {1, 100, 105, 107} \<union> {200..206}"
proof (induction e)
  fix c show "code (CompileError c) \<in> {1, 100, 105, 107} \<union> {200..206}"
    using compile_code_range [of c] by auto
qed (auto)

lemma code_compile_error: "code (CompileError (to_compile_error e)) \<in> {code e, 1}"
  by (cases e) (auto simp: to_compile_error_def)

end
