(* ===== verification/Exec_Resolve.thy ===== *)
theory Exec_Resolve
  imports Exec_Error Listing Merge Checksum
begin

text \<open>
  How a call finds its task (\<open>crates/taskcore/src/executor/run.rs\<close>: \<open>find_matching_tasks\<close>,
  \<open>get_task\<close>, \<open>split_regular_and_watch\<close>, \<open>will_watch\<close>) and the smaller decisions the
  engine takes on a task alone (\<open>executor/mod.rs\<close>: platforms, listing, injected variables;
  \<open>run.rs\<close>: cache and lock decisions). The lemmas fix the precedence of names, aliases and
  wildcards, and relate the operations that must agree with one another.
\<close>

section \<open>The executor\<close>

text \<open>The options of the executor and the parts of its state that a run does not change.\<close>

record executor =
  ex_dir :: str
  ex_fingerprint_dir :: str
  ex_force :: bool
  ex_force_all :: bool
  ex_watch :: bool
  ex_verbose :: bool
  ex_silent :: bool
  ex_interactive :: bool
  ex_assume_term :: bool
  ex_dry :: bool
  ex_summary :: bool
  ex_parallel :: bool
  ex_failfast :: bool
  ex_taskfile :: "taskfile option"
  ex_output_style :: output_style
  ex_task_sorter :: sorter
  ex_has_prompter :: bool
  ex_taskfile_paths :: "str list"

definition MAXIMUM_TASK_CALL :: int where
  "MAXIMUM_TASK_CALL = 1000"

section \<open>Tasks in an order\<close>

definition tasks_all :: "sorter \<Rightarrow> tasks \<Rightarrow> (str \<times> task) list" where
  "tasks_all s ts = List.map_filter (\<lambda>k. map_option (Pair k) (im_get ts k)) (sorter_sort s (im_keys ts) [])"

definition tasks_values :: "sorter \<Rightarrow> tasks \<Rightarrow> task list" where
  "tasks_values s ts = map snd (tasks_all s ts)"

record task_summary =
  ts_name :: str
  ts_task :: str
  ts_desc :: str
  ts_summary :: str
  ts_aliases :: "str list"
  ts_location :: "location option"

definition summary_of :: "task \<Rightarrow> task_summary" where
  "summary_of t = \<lparr>ts_name = task_name t, ts_task = t_task t, ts_desc = t_desc t,
     ts_summary = t_summary t, ts_aliases = t_aliases t, ts_location = t_location t\<rparr>"

definition list_tasks :: "executor \<Rightarrow> bool \<Rightarrow> task_summary list" where
  "list_tasks ex al = (case ex_taskfile ex of
     None \<Rightarrow> []
   | Some tf \<Rightarrow> map summary_of
       (filter (\<lambda>t. \<not> t_internal t \<and> (al \<or> t_desc t \<noteq> [])) (tasks_values (ex_task_sorter ex) (tf_tasks tf))))"

section \<open>Matching a call\<close>

type_synonym matching_task = "task \<times> str list"

definition aliased_tasks :: "tasks \<Rightarrow> str \<Rightarrow> task list" where
  "aliased_tasks ts n = filter (\<lambda>t. n \<in> set (t_aliases t)) (tasks_values SorterNone ts)"

definition wildcard_tasks :: "tasks \<Rightarrow> str \<Rightarrow> matching_task list" where
  "wildcard_tasks ts n =
     map (\<lambda>(k, t). (t, snd (wildcard_match t n)))
       (filter (\<lambda>(k, t). fst (wildcard_match t n)) (tasks_all SorterNone ts))"

definition find_matching_tasks :: "executor \<Rightarrow> call \<Rightarrow> (executor_error, matching_task list) result" where
  "find_matching_tasks ex c = (case ex_taskfile ex of
     None \<Rightarrow> Inl (Io (Text ''executor not set up''))
   | Some tf \<Rightarrow> (case im_get (tf_tasks tf) (call_task c) of
        Some t \<Rightarrow> Inr [(t, [])]
      | None \<Rightarrow>
          let aliased = aliased_tasks (tf_tasks tf) (call_task c)
          in if length aliased = 1 then Inr (map (\<lambda>t. (t, [])) aliased)
             else if length aliased > 1 then Inl (TaskNameConflict (call_task c) (map t_task aliased))
             else Inr (wildcard_tasks (tf_tasks tf) (call_task c))))"

definition get_task_with_match :: "executor \<Rightarrow> call \<Rightarrow> (executor_error, task \<times> str list) result" where
  "get_task_with_match ex c = try_bind (find_matching_tasks ex c) (\<lambda>matching. case matching of
     m # _ \<Rightarrow> Inr m
   | [] \<Rightarrow> Inl (TaskNotFound (call_task c) []))"

definition get_task :: "executor \<Rightarrow> call \<Rightarrow> (executor_error, task) result" where
  "get_task ex c = try_bind (find_matching_tasks ex c) (\<lambda>matching. case matching of
     m # _ \<Rightarrow> Inr (fst m)
   | [] \<Rightarrow> Inl (TaskNotFound (call_task c) []))"

text \<open>\<open>compiled_task_with\<close>: the captures become the \<open>MATCH\<close> variable of the call.\<close>

definition match_value :: "str list \<Rightarrow> var" where
  "match_value ws = default_var\<lparr>v_value := Some (Sequence (map String ws))\<rparr>"

definition match_call :: "str list \<Rightarrow> call \<Rightarrow> call" where
  "match_call ws c =
     (if ws \<noteq> [] \<or> im_get (call_vars c) ''MATCH'' = None
      then c\<lparr>call_vars := im_insert ''MATCH'' (match_value ws) (call_vars c)\<rparr> else c)"

fun split_regular_and_watch :: "executor \<Rightarrow> call list \<Rightarrow> (executor_error, call list \<times> call list) result" where
  "split_regular_and_watch ex [] = Inr ([], [])"
| "split_regular_and_watch ex (c # cs) =
     try_bind (get_task ex c) (\<lambda>t. try_bind (split_regular_and_watch ex cs) (\<lambda>(regular, watch).
       Inr (if ex_watch ex \<or> t_watch t then (regular, c # watch) else (c # regular, watch))))"

definition will_watch :: "executor \<Rightarrow> call list \<Rightarrow> bool" where
  "will_watch ex calls = (ex_watch ex \<or>
     list_ex (\<lambda>c. case get_task ex c of Inr t \<Rightarrow> t_watch t | Inl _ \<Rightarrow> False) calls)"

text \<open>\<open>run_calls\<close>: every requested task exists and is not internal.\<close>

fun check_calls :: "executor \<Rightarrow> call list \<Rightarrow> (executor_error, unit) result" where
  "check_calls ex [] = Inr ()"
| "check_calls ex (c # cs) = try_bind (get_task ex c) (\<lambda>t.
     if t_internal t then Inl (TaskInternal (call_task c)) else check_calls ex cs)"

section \<open>Decisions on a task\<close>

text \<open>\<open>std::env::consts::OS\<close> and \<open>ARCH\<close> are the parameters.\<close>

definition current_os :: "str \<Rightarrow> str" where
  "current_os os = (if os = ''macos'' then ''darwin'' else os)"

definition current_arch :: "str \<Rightarrow> str" where
  "current_arch arch = (if arch = ''x86_64'' then ''amd64'' else if arch = ''aarch64'' then ''arm64''
     else if arch = ''x86'' then ''386'' else arch)"

definition should_run_on_current_platform :: "str \<Rightarrow> str \<Rightarrow> platform list \<Rightarrow> bool" where
  "should_run_on_current_platform OS ARCH platforms =
     (platforms = [] \<or> list_ex (\<lambda>p.
        (p_os p = [] \<or> p_os p = current_os OS) \<and> (p_arch p = [] \<or> p_arch p = current_arch ARCH)) platforms)"

definition inject_prompted_vars :: "vars option \<Rightarrow> call \<Rightarrow> call" where
  "inject_prompted_vars prompted c = (case prompted of
     None \<Rightarrow> c
   | Some vs \<Rightarrow> c\<lparr>call_vars := foldl (\<lambda>m (n, v). if im_get m n = None then im_insert n v m else m)
       (call_vars c) vs\<rparr>)"

definition can_prompt :: "bool \<Rightarrow> executor \<Rightarrow> bool" where
  "can_prompt is_terminal ex = (ex_interactive ex \<and> ex_has_prompter ex \<and> (ex_assume_term ex \<or> is_terminal))"


definition cache_enabled :: "task \<Rightarrow> bool" where
  "cache_enabled t = (case t_cache t of
     None \<Rightarrow> False
   | Some c \<Rightarrow> (case ca_enabled c of
        Some enabled \<Rightarrow> enabled
      | None \<Rightarrow>
          if ca_if c \<noteq> [] then (let v = trim (ca_if c) in v \<noteq> [] \<and> v \<noteq> ''false'' \<and> v \<noteq> ''0'')
          else True))"

definition takes_lock :: "executor \<Rightarrow> task \<Rightarrow> bool" where
  "takes_lock ex t = (\<not> ex_dry ex \<and> t_sources t \<noteq> [] \<and> t_generates t \<noteq> [])"

text \<open>\<open>acquire_task_lock\<close>: the name a build-once lock is taken under.\<close>

definition lock_name :: "task \<Rightarrow> str \<Rightarrow> str" where
  "lock_name t checksum =
     (if checksum = [] then local_name t else local_name t @ '':'' @ checksum)"

text \<open>\<open>task_hash\<close>: the key repeated calls are joined under, empty when every call runs.\<close>

definition task_hash :: "(byte list \<Rightarrow> str) \<Rightarrow> num_fmt \<Rightarrow> executor \<Rightarrow> task \<Rightarrow> str" where
  "task_hash xxh3 f ex t =
     (let run = (if t_run t = [] then (case ex_taskfile ex of Some tf \<Rightarrow> tf_run tf | None \<Rightarrow> ''always'')
                 else t_run t)
      in if run = ''always'' then []
         else if run = ''once'' then hash_name t
         else if run = ''when_changed'' then hash_hash xxh3 f t
         else [])"

text \<open>\<open>run_command\<close> and \<open>log_up_to_date\<close>: whether a line is echoed.\<close>

definition taskfile_silent :: "executor \<Rightarrow> bool" where
  "taskfile_silent ex = (case ex_taskfile ex of Some tf \<Rightarrow> tf_silent tf | None \<Rightarrow> False)"

definition echo_cmd :: "executor \<Rightarrow> call \<Rightarrow> task \<Rightarrow> cmd \<Rightarrow> bool" where
  "echo_cmd ex c t cm = (ex_verbose ex \<or>
     (\<not> call_silent c \<and> \<not> c_silent cm \<and> \<not> is_silent t \<and> \<not> taskfile_silent ex \<and> \<not> ex_silent ex))"

definition shows_up_to_date :: "executor \<Rightarrow> call \<Rightarrow> task \<Rightarrow> bool" where
  "shows_up_to_date ex c t = (ex_verbose ex \<or>
     (\<not> call_silent c \<and> \<not> is_silent t \<and> \<not> taskfile_silent ex \<and> \<not> ex_silent ex))"

text \<open>\<open>run_command\<close>: the shell options of a command, from the Taskfile, the task and the command.\<close>

definition posix_opts :: "executor \<Rightarrow> task \<Rightarrow> cmd \<Rightarrow> str list" where
  "posix_opts ex t cm = unique_join
     [case ex_taskfile ex of Some tf \<Rightarrow> tf_set tf | None \<Rightarrow> [], t_set t, c_set cm]"

definition bash_opts :: "executor \<Rightarrow> task \<Rightarrow> cmd \<Rightarrow> str list" where
  "bash_opts ex t cm = unique_join
     [case ex_taskfile ex of Some tf \<Rightarrow> tf_shopt tf | None \<Rightarrow> [], t_shopt t, c_shopt cm]"

text \<open>\<open>read_config_files\<close>: the Taskfiles and dotenv files read for a task.\<close>

definition read_config_files :: "executor \<Rightarrow> task \<Rightarrow> str list" where
  "read_config_files ex t = ex_taskfile_paths ex
     @ (case ex_taskfile ex of Some tf \<Rightarrow> map (smart_join (ex_dir ex)) (tf_dotenv tf) | None \<Rightarrow> [])
     @ map (smart_join (compute_dir t)) (t_dotenv t)"

text \<open>A denied command fails whatever its status; only a command that ran has a status.\<close>

definition sandbox_verdict :: "task \<Rightarrow> bool \<Rightarrow> (executor_error, unit) result" where
  "sandbox_verdict t dn = (if dn then Inl (SandboxDenied (task_name t) DeniedCommand) else Inr ())"

definition exited_nonzero :: "(exec_error, unit) result \<Rightarrow> bool" where
  "exited_nonzero r = (case r of Inl (NonZeroExit _) \<Rightarrow> True | _ \<Rightarrow> False)"

section \<open>Lemmas\<close>

lemma tasks_all_None:
  assumes "im_ok ts"
  shows "tasks_all SorterNone ts = ts"
proof -
  have "List.map_filter (\<lambda>k. map_option (Pair k) (im_get ts k)) (map fst us) = us"
    if "set us \<subseteq> set ts" for us
    using that
  proof (induction us)
    case (Cons p us)
    moreover have "im_get ts (fst p) = Some (snd p)"
      using Cons.prems assms by (auto intro!: im_get_eq)
    ultimately show ?case by (simp add: List.map_filter_simps)
  qed (simp add: List.map_filter_simps)
  then show ?thesis by (simp add: tasks_all_def no_sort_def im_keys_def)
qed

lemma tasks_values_None: "im_ok ts \<Longrightarrow> tasks_values SorterNone ts = map snd ts"
  by (simp add: tasks_values_def tasks_all_None)

lemma get_task_fst: "get_task ex c = map_sum id fst (get_task_with_match ex c)"
  by (cases "find_matching_tasks ex c") (auto simp: get_task_def get_task_with_match_def split: list.splits)

lemma get_task_by_name:
  "ex_taskfile ex = Some tf \<Longrightarrow> im_get (tf_tasks tf) (call_task c) = Some t \<Longrightarrow> get_task ex c = Inr t"
  by (simp add: get_task_def find_matching_tasks_def)

definition aliases_of :: "tasks \<Rightarrow> str \<Rightarrow> task list" where
  "aliases_of ts n = filter (\<lambda>t. n \<in> set (t_aliases t)) (map snd ts)"

text \<open>The task a call names, by precedence: exact name, single alias, first wildcard match.\<close>

definition resolved_by :: "tasks \<Rightarrow> str \<Rightarrow> (executor_error, matching_task) result" where
  "resolved_by ts n = (case im_get ts n of
     Some t \<Rightarrow> Inr (t, [])
   | None \<Rightarrow> (case aliases_of ts n of
        [t] \<Rightarrow> Inr (t, [])
      | t # u # rest \<Rightarrow> Inl (TaskNameConflict n (map t_task (t # u # rest)))
      | [] \<Rightarrow> (case find (\<lambda>t. fst (wildcard_match t n)) (map snd ts) of
            Some t \<Rightarrow> Inr (t, snd (wildcard_match t n))
          | None \<Rightarrow> Inl (TaskNotFound n []))))"

lemma wildcard_first:
  assumes "tasks_all SorterNone ts = ts"
  shows "(case wildcard_tasks ts n of
      m # _ \<Rightarrow> Inr m | [] \<Rightarrow> Inl e)
   = (case find (\<lambda>t. fst (wildcard_match t n)) (map snd ts) of
      Some t \<Rightarrow> Inr (t, snd (wildcard_match t n)) | None \<Rightarrow> Inl e)"
  unfolding wildcard_tasks_def assms by (induction ts) auto

lemma get_task_with_match_resolved:
  assumes "ex_taskfile ex = Some tf" "im_ok (tf_tasks tf)"
  shows "get_task_with_match ex c = resolved_by (tf_tasks tf) (call_task c)"
proof (cases "im_get (tf_tasks tf) (call_task c)")
  case (Some t)
  then show ?thesis using assms
    by (simp add: get_task_with_match_def find_matching_tasks_def resolved_by_def)
next
  case None
  have vals: "tasks_values SorterNone (tf_tasks tf) = map snd (tf_tasks tf)"
    and al: "tasks_all SorterNone (tf_tasks tf) = tf_tasks tf"
    using assms(2) by (simp_all add: tasks_values_None tasks_all_None)
  define aliased where "aliased = aliases_of (tf_tasks tf) (call_task c)"
  have "get_task_with_match ex c = (case aliased of
      [t] \<Rightarrow> Inr (t, [])
    | t # u # rest \<Rightarrow> Inl (TaskNameConflict (call_task c) (map t_task (t # u # rest)))
    | [] \<Rightarrow> (case wildcard_tasks (tf_tasks tf) (call_task c) of
        m # _ \<Rightarrow> Inr m | [] \<Rightarrow> Inl (TaskNotFound (call_task c) [])))"
    using assms(1) None
    by (simp add: get_task_with_match_def find_matching_tasks_def Let_def aliased_tasks_def vals
        flip: aliased_def aliases_of_def split: list.split)
  then show ?thesis
    using None by (cases aliased) (simp_all add: resolved_by_def wildcard_first [OF al] flip: aliased_def)
qed

lemma resolved_by_member:
  assumes "resolved_by ts n = Inr (t, ws)"
  shows "t \<in> snd ` set ts"
proof -
  have "t \<in> set (map snd ts)"
  proof (cases "im_get ts n")
    case (Some u)
    then have "(n, u) \<in> set ts" by (auto simp: im_get_def dest: map_of_SomeD)
    with assms Some show ?thesis by (force simp: resolved_by_def)
  next
    case None
    have "aliases_of ts n = [t] \<or> find (\<lambda>t. fst (wildcard_match t n)) (map snd ts) = Some t"
      using assms None by (auto simp: resolved_by_def split: list.splits option.splits)
    moreover have "set (aliases_of ts n) \<subseteq> set (map snd ts)"
      unfolding aliases_of_def by (rule filter_is_subset)
    moreover have "find P xs = Some x \<Longrightarrow> x \<in> set xs" for P and xs :: "task list" and x
      by (auto simp: find_Some_iff)
    ultimately show ?thesis by (metis list.set_intros(1) subsetD)
  qed
  then show ?thesis by simp
qed

lemma split_regular_and_watch_filter:
  "split_regular_and_watch ex calls = Inr (regular, watch) \<Longrightarrow>
     regular = filter (\<lambda>c. \<not> will_watch ex [c]) calls \<and> watch = filter (\<lambda>c. will_watch ex [c]) calls"
proof (induction calls arbitrary: regular watch)
  case (Cons c cs)
  from Cons.prems obtain t r w where "get_task ex c = Inr t" "split_regular_and_watch ex cs = Inr (r, w)"
    "(regular, watch) = (if ex_watch ex \<or> t_watch t then (r, c # w) else (c # r, w))"
    by (auto split: prod.splits)
  with Cons.IH [of r w] show ?case by (auto simp: will_watch_def split: if_splits)
qed simp

lemma will_watch_any: "will_watch ex calls \<longleftrightarrow> ex_watch ex \<or> (\<exists>c\<in>set calls. will_watch ex [c])"
  by (auto simp: will_watch_def list_ex_iff)

text \<open>The first task in the order of the Taskfile whose name or an alias matches as a pattern.\<close>

definition first_match :: "tasks \<Rightarrow> str \<Rightarrow> task \<Rightarrow> str list \<Rightarrow> bool" where
  "first_match ts n t ws = (wildcard_match t n = (True, ws)
     \<and> (\<exists>before after. map snd ts = before @ t # after \<and> (\<forall>u\<in>set before. \<not> fst (wildcard_match u n))))"

lemma find_Some_split:
  "find P xs = Some x \<Longrightarrow> P x \<and> (\<exists>ys zs. xs = ys @ x # zs \<and> (\<forall>y\<in>set ys. \<not> P y))"
proof (induction xs)
  case (Cons a xs)
  show ?case
  proof (cases "P a")
    case True
    with Cons.prems show ?thesis by (intro conjI exI [of _ "[]"] exI [of _ xs]) auto
  next
    case False
    with Cons obtain ys zs where "P x" "xs = ys @ x # zs" "\<forall>y\<in>set ys. \<not> P y" by auto
    with False show ?thesis by (intro conjI exI [of _ "a # ys"] exI [of _ zs]) auto
  qed
qed simp

lemma resolved_by_sound:
  assumes "resolved_by ts n = Inr (t, ws)" "\<forall>(k, t)\<in>set ts. t_task t = k"
  shows "(n \<in> set (im_keys ts) \<longrightarrow> t_task t = n \<and> ws = [])
    \<and> (n \<notin> set (im_keys ts) \<longrightarrow> aliases_of ts n = [t] \<and> ws = []
         \<or> aliases_of ts n = [] \<and> first_match ts n t ws
           \<and> (\<exists>p\<in>set (t_task t # t_aliases t). interleave (split_on CHR ''*'' p) ws = n))"
proof (cases "im_get ts n")
  case (Some u)
  then have "(n, u) \<in> set ts" by (auto simp: im_get_def dest: map_of_SomeD)
  moreover have "t = u \<and> ws = []" using assms(1) Some by (simp add: resolved_by_def)
  ultimately show ?thesis using assms(2) by (auto simp: im_keys_def image_iff)
next
  case None
  then have "n \<notin> set (im_keys ts)" by (simp add: im.get_None)
  moreover have "aliases_of ts n = [t] \<and> ws = []
      \<or> aliases_of ts n = [] \<and> find (\<lambda>t. fst (wildcard_match t n)) (map snd ts) = Some t \<and> ws = snd (wildcard_match t n)"
    using assms(1) None by (auto simp: resolved_by_def split: list.splits option.splits)
  then have "aliases_of ts n = [t] \<and> ws = [] \<or> aliases_of ts n = [] \<and> first_match ts n t ws"
    by (auto simp: first_match_def prod_eq_iff dest!: find_Some_split)
  ultimately show ?thesis
    using wildcard_match_names_sound [of "t_task t # t_aliases t" n ws]
    by (auto simp: wildcard_match_def first_match_def)
qed

lemma resolved_by_error:
  assumes "resolved_by ts n = Inl e"
  shows "n \<notin> set (im_keys ts)
    \<and> (e = TaskNotFound n [] \<and> aliases_of ts n = [] \<and> (\<forall>t\<in>snd ` set ts. \<not> fst (wildcard_match t n))
       \<or> e = TaskNameConflict n (map t_task (aliases_of ts n)) \<and> 2 \<le> length (aliases_of ts n))"
proof (cases "im_get ts n")
  case (Some u)
  then show ?thesis using assms by (simp add: resolved_by_def)
next
  case None
  then show ?thesis using assms
    by (auto simp: resolved_by_def im.get_None find_None_iff
        split: list.splits option.splits)
qed

section \<open>Properties\<close>

text \<open>
  C30: how a call finds its task. A call that is the name of a task runs that task whatever the
  aliases and patterns of the others; otherwise the single task with that alias, otherwise the
  first task whose name or alias is a pattern the captures fill to the called name. The call
  fails exactly when several tasks share the alias (all of them reported) or nothing matches.
\<close>

theorem call_resolution:
  assumes "ex_taskfile ex = Some tf" "im_ok (tf_tasks tf)" "\<forall>(k, t)\<in>set (tf_tasks tf). t_task t = k"
  shows "case get_task_with_match ex c of
      Inr (t, ws) \<Rightarrow> t \<in> snd ` set (tf_tasks tf)
        \<and> (call_task c \<in> set (im_keys (tf_tasks tf)) \<longrightarrow> t_task t = call_task c \<and> ws = [])
        \<and> (call_task c \<notin> set (im_keys (tf_tasks tf)) \<longrightarrow>
             aliases_of (tf_tasks tf) (call_task c) = [t] \<and> ws = []
           \<or> aliases_of (tf_tasks tf) (call_task c) = [] \<and> first_match (tf_tasks tf) (call_task c) t ws
             \<and> (\<exists>p\<in>set (t_task t # t_aliases t). interleave (split_on CHR ''*'' p) ws = call_task c))
    | Inl e \<Rightarrow> call_task c \<notin> set (im_keys (tf_tasks tf))
        \<and> (e = TaskNotFound (call_task c) [] \<and> aliases_of (tf_tasks tf) (call_task c) = []
             \<and> (\<forall>t\<in>snd ` set (tf_tasks tf). \<not> fst (wildcard_match t (call_task c)))
           \<or> e = TaskNameConflict (call_task c) (map t_task (aliases_of (tf_tasks tf) (call_task c)))
             \<and> 2 \<le> length (aliases_of (tf_tasks tf) (call_task c)))"
  unfolding get_task_with_match_resolved [OF assms(1,2)]
  using resolved_by_sound [OF _ assms(3)] resolved_by_error resolved_by_member
  by (auto split: sum.splits prod.splits simp del: set_simps list.set)

definition sample_tasks :: tasks where
  "sample_tasks = [(''build'', default_task\<lparr>t_task := ''build'', t_aliases := [''b'']\<rparr>),
     (''start:*'', default_task\<lparr>t_task := ''start:*''\<rparr>)]"

definition sample_executor :: executor where
  "sample_executor = \<lparr>ex_dir = ''/p'', ex_fingerprint_dir = ''/p/.task'', ex_force = False,
     ex_force_all = False, ex_watch = False, ex_verbose = False, ex_silent = False,
     ex_interactive = False, ex_assume_term = False, ex_dry = False, ex_summary = False,
     ex_parallel = False, ex_failfast = False,
     ex_taskfile = Some (default_taskfile\<lparr>tf_tasks := sample_tasks\<rparr>),
     ex_output_style = default_output, ex_task_sorter = AlphaNumericWithRootTasksFirst,
     ex_has_prompter = False, ex_taskfile_paths = []\<rparr>"

lemma sample_executor_taskfile [simp]:
  "ex_taskfile sample_executor = Some (default_taskfile\<lparr>tf_tasks := sample_tasks\<rparr>)"
  by (simp add: sample_executor_def)

lemma sample_tasks_ok: "im_ok sample_tasks" "\<forall>(k, t)\<in>set sample_tasks. t_task t = k"
  by (simp_all add: sample_tasks_def im_ok_def)

theorem call_resolution_witness:
  "\<exists>t. get_task_with_match sample_executor (call_new ''b'') = Inr (t, []) \<and> t_task t = ''build''"
proof -
  have al: "aliases_of sample_tasks ''b'' = [default_task\<lparr>t_task := ''build'', t_aliases := [''b'']\<rparr>]"
    by (simp add: aliases_of_def sample_tasks_def default_task_def)
  have "''b'' \<notin> set (im_keys sample_tasks)" by (simp add: sample_tasks_def im_keys_def)
  with al show ?thesis
    using call_resolution [where ex = sample_executor and tf = "default_taskfile\<lparr>tf_tasks := sample_tasks\<rparr>"
        and c = "call_new ''b''"] sample_tasks_ok
    by (auto simp: call_new_def split: sum.splits prod.splits)
qed

text \<open>
  C32: the calls of one invocation are split into those run once and those watched, each in the
  order given, and \<open>will_watch\<close>, asked before the run starts, foretells whether anything is watched.
\<close>

theorem watch_split:
  assumes "split_regular_and_watch ex calls = Inr (regular, watch)"
  shows "regular = filter (\<lambda>c. \<not> will_watch ex [c]) calls \<and> watch = filter (\<lambda>c. will_watch ex [c]) calls
    \<and> (calls \<noteq> [] \<longrightarrow> (will_watch ex calls \<longleftrightarrow> watch \<noteq> []))"
proof -
  have "will_watch ex calls \<longleftrightarrow> (\<exists>c\<in>set calls. will_watch ex [c])" if "calls \<noteq> []"
    using that will_watch_any [of ex calls] by (cases calls) (auto simp: will_watch_def)
  then show ?thesis
    using split_regular_and_watch_filter [OF assms] by (auto simp: filter_empty_conv)
qed

theorem watch_split_witness:
  "\<exists>watch. split_regular_and_watch sample_executor [call_new ''build''] = Inr ([call_new ''build''], watch)
     \<and> watch = filter (\<lambda>c. will_watch sample_executor [c]) [call_new ''build'']"
proof -
  have "get_task sample_executor (call_new ''build'')
      = Inr (default_task\<lparr>t_task := ''build'', t_aliases := [''b'']\<rparr>)"
    by (rule get_task_by_name [OF sample_executor_taskfile])
      (simp add: call_new_def sample_tasks_def im_get_def)
  then have "split_regular_and_watch sample_executor [call_new ''build''] = Inr ([call_new ''build''], [])"
    by (simp add: sample_executor_def default_task_def)
  with watch_split [OF this] show ?thesis by simp
qed

end
