(* ===== verification/Exec_Queue.thy ===== *)
theory Exec_Queue
  imports Exec_Error "HOL-Library.Multiset"
begin

text \<open>
  The dependency path a call runs on (\<open>CallPath\<close>) and the joining of queued tasks
  (\<open>join_queued\<close>), both of \<open>crates/taskcore/src/executor/run.rs\<close>. A path is the list of the
  tasks above a call, innermost first; the head's links to its parents are the tail.

  \<open>join_queued\<close> is polled by the runtime: each poll asks every pending handle, in queue order,
  whether its task has finished. The model takes the answers of successive polls as a list of
  functions from handles to results. The lemmas relate the outcome to the order of completion.
\<close>

section \<open>Call paths\<close>

datatype ignored = IgnoredNo | IgnoredCallee | IgnoredAll

definition ignored_max :: "ignored \<Rightarrow> ignored \<Rightarrow> ignored" where
  "ignored_max a b =
     (if a = IgnoredAll \<or> b = IgnoredAll then IgnoredAll
      else if a = IgnoredCallee \<or> b = IgnoredCallee then IgnoredCallee else IgnoredNo)"

text \<open>The parts of a sandbox policy the engine reads: its task and the \<open>TMPDIR\<close> it gives.\<close>

record policy =
  pl_task :: str
  pl_tmpdir :: "str option"

record level =
  lv_key :: str
  lv_name :: str
  lv_layers :: "policy list option"
  lv_ignored :: bool
  lv_calls :: ignored

type_synonym ancestors = "level list"

definition path_layers :: "ancestors \<Rightarrow> policy list option" where
  "path_layers path = (case path of [] \<Rightarrow> None | l # _ \<Rightarrow> lv_layers l)"

definition path_calls :: "ancestors \<Rightarrow> ignored" where
  "path_calls path = (case path of [] \<Rightarrow> IgnoredNo | l # _ \<Rightarrow> lv_calls l)"

definition path_extend :: "ancestors \<Rightarrow> str \<Rightarrow> str \<Rightarrow> ancestors" where
  "path_extend path key name =
     \<lparr>lv_key = key, lv_name = name, lv_layers = path_layers path,
      lv_ignored = (path_calls path \<noteq> IgnoredNo),
      lv_calls = (if path_calls path = IgnoredAll then IgnoredAll else IgnoredNo)\<rparr> # path"

definition path_calling :: "ancestors \<Rightarrow> ignored \<Rightarrow> ancestors" where
  "path_calling path how = (case path of
     [] \<Rightarrow> []
   | l # ps \<Rightarrow> l\<lparr>lv_calls := ignored_max (lv_calls l) how\<rparr> # ps)"

definition path_ignored :: "ancestors \<Rightarrow> bool" where
  "path_ignored path = (case path of [] \<Rightarrow> False | l # _ \<Rightarrow> lv_ignored l)"

definition path_with_layers :: "ancestors \<Rightarrow> policy list \<Rightarrow> ancestors" where
  "path_with_layers path layers = (case path of
     [] \<Rightarrow> []
   | l # ps \<Rightarrow> l\<lparr>lv_layers := Some layers\<rparr> # ps)"

fun path_contains :: "ancestors \<Rightarrow> str \<Rightarrow> bool" where
  "path_contains [] key = False"
| "path_contains (l # ps) key = (lv_key l = key \<or> path_contains ps key)"

definition to_path_through :: "ancestors \<Rightarrow> str \<Rightarrow> str list" where
  "to_path_through path t = rev (t # map lv_name path)"

text \<open>\<open>sandbox/mod.rs\<close>: a policy pushed on the outer layers, and the innermost \<open>TMPDIR\<close>.\<close>

definition layers_push :: "policy list option \<Rightarrow> policy \<Rightarrow> policy list" where
  "layers_push outer p = (case outer of None \<Rightarrow> [] | Some ps \<Rightarrow> ps) @ [p]"

definition layers_tmpdir :: "policy list \<Rightarrow> str option" where
  "layers_tmpdir layers = (case List.map_filter pl_tmpdir (rev layers) of [] \<Rightarrow> None | d # _ \<Rightarrow> Some d)"

section \<open>Joining queued tasks\<close>

text \<open>The end of a queued task: its result, or a cancellation (\<open>JoinError\<close>). A panic unwinds.\<close>

datatype join_result = Joined "(executor_error, unit) result" | Aborted

fun queued_result :: "join_result \<Rightarrow> (executor_error, unit) result" where
  "queued_result (Joined r) = r"
| "queued_result Aborted = Inl Cancelled"

text \<open>
  One poll: the handles still pending, the first error so far, and the error that ended the
  poll early under failfast. Finished handles are removed in queue order; \<open>kept\<close> are those
  already found pending in this poll.
\<close>

record 'h poll_state =
  ps_pending :: "'h list"
  ps_first_err :: "executor_error option"
  ps_fatal :: "executor_error option"

fun poll_handles ::
  "bool \<Rightarrow> ('h \<Rightarrow> join_result option) \<Rightarrow> 'h list \<Rightarrow> 'h list \<Rightarrow> executor_error option \<Rightarrow> 'h poll_state" where
  "poll_handles failfast ready kept [] first =
     \<lparr>ps_pending = kept, ps_first_err = first, ps_fatal = None\<rparr>"
| "poll_handles failfast ready kept (h # hs) first = (case ready h of
     None \<Rightarrow> poll_handles failfast ready (kept @ [h]) hs first
   | Some res \<Rightarrow> (case queued_result res of
        Inr _ \<Rightarrow> poll_handles failfast ready kept hs first
      | Inl e \<Rightarrow>
          if failfast then \<lparr>ps_pending = kept @ hs, ps_first_err = first, ps_fatal = Some e\<rparr>
          else poll_handles failfast ready kept hs (if first = None then Some e else first)))"

text \<open>
  The join over successive polls. The result is \<open>None\<close> while it still waits; otherwise the
  outcome, the handles it aborted, and whether it marked the run as having abandoned tasks.
\<close>

record 'h join_outcome =
  jo_result :: "(executor_error, unit) result"
  jo_aborted :: "'h list"
  jo_abandoned :: bool

fun join_polls ::
  "bool \<Rightarrow> ('h \<Rightarrow> join_result option) list \<Rightarrow> 'h list \<Rightarrow> executor_error option \<Rightarrow> 'h join_outcome option" where
  "join_polls failfast [] pending first = None"
| "join_polls failfast (ready # polls) pending first =
     (let ps = poll_handles failfast ready [] pending first
      in case ps_fatal ps of
           Some e \<Rightarrow> Some \<lparr>jo_result = Inl e, jo_aborted = ps_pending ps, jo_abandoned = (ps_pending ps \<noteq> [])\<rparr>
         | None \<Rightarrow>
             if ps_pending ps = []
             then Some \<lparr>jo_result = (case ps_first_err ps of Some e \<Rightarrow> Inl e | None \<Rightarrow> Inr ()),
                        jo_aborted = [], jo_abandoned = False\<rparr>
             else join_polls failfast polls (ps_pending ps) (ps_first_err ps))"

definition join_queued ::
  "bool \<Rightarrow> ('h \<Rightarrow> join_result option) list \<Rightarrow> 'h list \<Rightarrow> 'h join_outcome option" where
  "join_queued failfast polls pending =
     (if pending = [] then Some \<lparr>jo_result = Inr (), jo_aborted = [], jo_abandoned = False\<rparr>
      else join_polls failfast polls pending None)"

section \<open>Lemmas\<close>

lemma path_contains_iff: "path_contains path key \<longleftrightarrow> key \<in> lv_key ` set path"
  by (induction path) auto

lemma ignored_max_No [simp]: "ignored_max a IgnoredNo = a" "ignored_max IgnoredNo a = a"
  by (cases a; simp add: ignored_max_def)+

text \<open>A sandbox layer never disappears on the way down a path.\<close>

lemma path_layers_extend [simp]: "path_layers (path_extend path key name) = path_layers path"
  by (simp add: path_extend_def path_layers_def)

lemma path_layers_calling [simp]: "path_layers (path_calling path how) = path_layers path"
  by (cases path) (simp_all add: path_calling_def path_layers_def)

text \<open>
  The completions a sequence of polls delivers, in the order the join sees them: by poll, then
  by queue order.
\<close>

fun completions :: "('h \<Rightarrow> join_result option) list \<Rightarrow> 'h list \<Rightarrow> ('h \<times> join_result) list" where
  "completions [] pending = []"
| "completions (ready # polls) pending =
     List.map_filter (\<lambda>h. map_option (Pair h) (ready h)) pending
     @ completions polls (filter (\<lambda>h. ready h = None) pending)"

definition err_of :: "'h \<times> join_result \<Rightarrow> executor_error option" where
  "err_of p = (case queued_result (snd p) of Inl e \<Rightarrow> Some e | Inr _ \<Rightarrow> None)"

definition first_error :: "('h \<times> join_result) list \<Rightarrow> executor_error option" where
  "first_error ps = (case List.map_filter err_of ps of [] \<Rightarrow> None | e # _ \<Rightarrow> Some e)"

lemma first_error_simps [simp]:
  "first_error [] = None"
  "first_error (p # ps) = (case err_of p of Some e \<Rightarrow> Some e | None \<Rightarrow> first_error ps)"
  by (simp_all add: first_error_def List.map_filter_simps split: option.splits)

lemma first_error_append:
  "first_error (ps @ qs) = (case first_error ps of Some e \<Rightarrow> Some e | None \<Rightarrow> first_error qs)"
  by (induction ps) (auto split: option.splits)

abbreviation ready_list :: "('h \<Rightarrow> join_result option) \<Rightarrow> 'h list \<Rightarrow> ('h \<times> join_result) list" where
  "ready_list ready hs \<equiv> List.map_filter (\<lambda>h. map_option (Pair h) (ready h)) hs"

lemma poll_waiting:
  "poll_handles False ready kept hs first =
     \<lparr>ps_pending = kept @ filter (\<lambda>h. ready h = None) hs,
      ps_first_err = (case first of Some e \<Rightarrow> Some e | None \<Rightarrow> first_error (ready_list ready hs)),
      ps_fatal = None\<rparr>"
  by (induction hs arbitrary: kept first)
    (auto simp: List.map_filter_simps err_of_def split: option.splits sum.splits)

lemma poll_failfast_ok:
  assumes "first_error (ready_list ready hs) = None"
  shows "poll_handles True ready kept hs first =
    \<lparr>ps_pending = kept @ filter (\<lambda>h. ready h = None) hs, ps_first_err = first, ps_fatal = None\<rparr>"
  using assms
  by (induction hs arbitrary: kept)
    (auto simp: List.map_filter_simps err_of_def split: option.splits sum.splits)

lemma poll_failfast_err:
  assumes "first_error (ready_list ready hs) = Some e"
  shows "ps_fatal (poll_handles True ready kept hs first) = Some e"
  using assms
  by (induction hs arbitrary: kept)
    (auto simp: List.map_filter_simps err_of_def split: option.splits sum.splits)

text \<open>Every queued task has finished by the end of the polls.\<close>

definition all_finish :: "('h \<Rightarrow> join_result option) list \<Rightarrow> 'h list \<Rightarrow> bool" where
  "all_finish polls pending = (\<forall>h\<in>set pending. \<exists>ready\<in>set polls. ready h \<noteq> None)"

lemma all_finish_tail:
  "all_finish (ready # polls) pending \<Longrightarrow> all_finish polls (filter (\<lambda>h. ready h = None) pending)"
  by (auto simp: all_finish_def)

lemma completions_Nil [simp]: "completions polls [] = []"
  by (induction polls) (simp_all add: List.map_filter_simps)

lemma join_waits:
  assumes "all_finish polls pending" "pending \<noteq> []"
  shows "\<exists>jo. join_polls False polls pending first = Some jo
    \<and> jo_result jo = (case (case first of Some e \<Rightarrow> Some e | None \<Rightarrow> first_error (completions polls pending)) of
         Some e \<Rightarrow> Inl e | None \<Rightarrow> Inr ())
    \<and> jo_aborted jo = [] \<and> \<not> jo_abandoned jo"
  using assms
proof (induction polls arbitrary: pending first)
  case Nil
  then show ?case by (cases pending) (auto simp: all_finish_def)
next
  case (Cons ready polls)
  let ?rest = "filter (\<lambda>h. ready h = None) pending"
  show ?case
  proof (cases "?rest = []")
    case True
    then show ?thesis by (cases first) (simp_all add: poll_waiting Let_def)
  next
    case False
    from Cons.IH [OF all_finish_tail [OF Cons.prems(1)] False,
        of "case first of Some e \<Rightarrow> Some e | None \<Rightarrow> first_error (ready_list ready pending)"]
    show ?thesis using False
      by (cases first; cases "first_error (ready_list ready pending)")
        (simp_all add: poll_waiting Let_def first_error_append)
  qed
qed

lemma join_failfast:
  assumes "all_finish polls pending" "pending \<noteq> []"
  shows "\<exists>jo. join_polls True polls pending None = Some jo
    \<and> jo_result jo = (case first_error (completions polls pending) of Some e \<Rightarrow> Inl e | None \<Rightarrow> Inr ())
    \<and> (jo_result jo = Inr () \<longrightarrow> jo_aborted jo = [])
    \<and> (jo_abandoned jo \<longleftrightarrow> jo_aborted jo \<noteq> [])"
  using assms
proof (induction polls arbitrary: pending)
  case Nil
  then show ?case by (cases pending) (auto simp: all_finish_def)
next
  case (Cons ready polls)
  let ?rest = "filter (\<lambda>h. ready h = None) pending"
  show ?case
  proof (cases "first_error (ready_list ready pending)")
    case (Some e)
    from poll_failfast_err [OF this] Some show ?thesis
      by (auto simp: Let_def first_error_append)
  next
    case None
    show ?thesis
    proof (cases "?rest = []")
      case True
      with None show ?thesis by (simp add: poll_failfast_ok Let_def first_error_append)
    next
      case False
      from Cons.IH [OF all_finish_tail [OF Cons.prems(1)] False] None False show ?thesis
        by (auto simp: poll_failfast_ok Let_def first_error_append)
    qed
  qed
qed


section \<open>Properties\<close>

text \<open>
  C31: joining a task's dependencies. Once every queued task finishes, the join returns the first
  error in the order of completion (in queue order within one poll), and success exactly when
  no task failed; without failfast nothing is aborted, with failfast the run is marked as
  having abandoned tasks exactly when some were still pending.
\<close>

theorem join_queued_first_error:
  assumes "all_finish polls pending"
  shows "\<exists>jo. join_queued failfast polls pending = Some jo
    \<and> jo_result jo = (case first_error (completions polls pending) of Some e \<Rightarrow> Inl e | None \<Rightarrow> Inr ())
    \<and> (\<not> failfast \<or> jo_result jo = Inr () \<longrightarrow> jo_aborted jo = [])
    \<and> (jo_abandoned jo \<longleftrightarrow> jo_aborted jo \<noteq> [])"
proof (cases "pending = []")
  case True
  then show ?thesis by (simp add: join_queued_def)
next
  case False
  then show ?thesis
    using join_waits [OF assms False, of None] join_failfast [OF assms False]
    by (cases failfast) (auto simp: join_queued_def)
qed

definition sample_polls :: "(nat \<Rightarrow> join_result option) list" where
  "sample_polls = [(\<lambda>h. if h = 1 then Some (Joined (Inl Cancelled)) else None),
     (\<lambda>h. Some (Joined (Inr ())))]"

theorem join_queued_first_error_witness:
  "\<exists>jo. join_queued True sample_polls [0, 1, 2 :: nat] = Some jo \<and> jo_result jo = Inl Cancelled"
proof -
  have "all_finish sample_polls [0, 1, 2 :: nat]" by (simp add: all_finish_def sample_polls_def)
  from join_queued_first_error [OF this, of True] show ?thesis
    by (auto simp: sample_polls_def List.map_filter_simps err_of_def)
qed

end
