(* ===== verification/Exec_World.thy ===== *)
theory Exec_World
  imports Exec_Resolve Exec_Queue
begin

text \<open>
  The state a run of the executor changes and the steps it is made of. A step takes the world
  and returns a result (an error stops the steps after it, as \<open>?\<close> does) with the world it
  leaves; it may also never return, because it waits on itself (\<open>Deadlock\<close>), or run out of the
  recursion depth the model allows (\<open>OutOfFuel\<close>).

  Everything the engine does not compute itself happens through the \<open>machine\<close>: the shell, the
  locks, the remote cache, prompts, and the compilation of a task (templates and shell
  variables). Each of its operations reads and changes the disk and an outside state of any
  type, and nothing else of the world.
\<close>

section \<open>The world\<close>

text \<open>The run-once map holds a cell per key: being initialised, or holding the shared result.\<close>

datatype once_cell = Running | Finished "(executor_error, unit) result"

record shell_cmd =
  sc_command :: str
  sc_dir :: str
  sc_env :: "(str \<times> str) list"
  sc_posix_opts :: "str list"
  sc_bash_opts :: "str list"
  sc_sandbox :: "policy list option"

text \<open>
  The trace lists the commands that ran, by task, with what the shell returned and whether the
  sandbox denied anything, and the conditions that were evaluated.
\<close>

datatype event = Command str shell_cmd "(exec_error, unit) result" bool | Condition str shell_cmd

record 'x world =
  w_disk :: disk
  w_out :: 'x
  w_task_call_count :: "str \<Rightarrow> int"
  w_run_once :: "str \<Rightarrow> once_cell option"
  w_prompted_vars :: "vars option"
  w_trace :: "event list"

section \<open>Steps\<close>

datatype 'a outcome = Returned 'a | Deadlock | OutOfFuel

type_synonym ('x, 'a) run = "'x world \<Rightarrow> ((executor_error, 'a) result \<times> 'x world) outcome"

definition ok :: "'a \<Rightarrow> ('x, 'a) run" where
  "ok a w = Returned (Inr a, w)"

definition fail :: "executor_error \<Rightarrow> ('x, 'a) run" where
  "fail e w = Returned (Inl e, w)"

definition lift :: "(executor_error, 'a) result \<Rightarrow> ('x, 'a) run" where
  "lift r w = Returned (r, w)"

definition bind :: "('x, 'a) run \<Rightarrow> ('a \<Rightarrow> ('x, 'b) run) \<Rightarrow> ('x, 'b) run" where
  "bind m f w = (case m w of
     Returned (Inr a, w') \<Rightarrow> f a w'
   | Returned (Inl e, w') \<Rightarrow> Returned (Inl e, w')
   | Deadlock \<Rightarrow> Deadlock
   | OutOfFuel \<Rightarrow> OutOfFuel)"

text \<open>A step whose result is looked at rather than passed on with \<open>?\<close>.\<close>

definition attempt :: "('x, 'a) run \<Rightarrow> ('x, (executor_error, 'a) result) run" where
  "attempt m w = (case m w of
     Returned (r, w') \<Rightarrow> Returned (Inr r, w')
   | Deadlock \<Rightarrow> Deadlock
   | OutOfFuel \<Rightarrow> OutOfFuel)"

definition map_err :: "(executor_error \<Rightarrow> executor_error) \<Rightarrow> ('x, 'a) run \<Rightarrow> ('x, 'a) run" where
  "map_err f m = bind (attempt m) (\<lambda>r. lift (map_sum f id r))"

definition gets :: "('x world \<Rightarrow> 'a) \<Rightarrow> ('x, 'a) run" where
  "gets f w = Returned (Inr (f w), w)"

definition modify :: "('x world \<Rightarrow> 'x world) \<Rightarrow> ('x, unit) run" where
  "modify f w = Returned (Inr (), f w)"

text \<open>An operation of the machine.\<close>

definition outside :: "(disk \<Rightarrow> 'x \<Rightarrow> 'a \<times> disk \<times> 'x) \<Rightarrow> ('x, 'a) run" where
  "outside op w = (case op (w_disk w) (w_out w) of
     (a, dk, x) \<Rightarrow> Returned (Inr a, w\<lparr>w_disk := dk, w_out := x\<rparr>))"

text \<open>An operation of the checker that writes the disk, with its error as the engine wraps it.\<close>

definition on_disk :: "(disk \<Rightarrow> (io_error, 'a) result \<times> disk) \<Rightarrow> ('x, 'a) run" where
  "on_disk f w = (case f (w_disk w) of
     (r, dk) \<Rightarrow> Returned (map_sum (\<lambda>e. Io (IoMessage e)) id r, w\<lparr>w_disk := dk\<rparr>))"

definition emit :: "event \<Rightarrow> ('x, unit) run" where
  "emit ev = modify (\<lambda>w. w\<lparr>w_trace := w_trace w @ [ev]\<rparr>)"

text \<open>Errors of the checker and of validations, as the engine wraps them.\<close>

definition io :: "(io_error, 'a) result \<Rightarrow> ('x, 'a) run" where
  "io r = lift (map_sum (\<lambda>e. Io (IoMessage e)) id r)"

section \<open>The machine\<close>

record cache_meta =
  cm_task :: str
  cm_sources :: str
  cm_generates :: str

datatype commit_result = Committed | CommitCleanup str | NotKept str "(str, unit) result"

datatype prompt_error = PromptCancelled | PromptUnavailable str

type_synonym ('x, 'a) op = "disk \<Rightarrow> 'x \<Rightarrow> 'a \<times> disk \<times> 'x"

text \<open>
  The operations, by the code they stand for: \<open>env::get\<close> and the process environment; the
  target constants; \<open>term::is_terminal\<close>; \<open>Compiler::get_variables\<close> with
  \<open>variables::compiled_task\<close>, \<open>resolve\<close> and \<open>finalize\<close>; the templates of a deferred command;
  \<open>execext::run_command\<close> with whether its sandbox denied it anything; the sandbox of a
  condition; \<open>sandbox_policy\<close>; \<open>mkdir\<close>; the prompter; \<open>CacheUrl::parse\<close>; \<open>CacheLock\<close> and its
  guards; \<open>cache_restore\<close>, \<open>commit\<close>, \<open>undo\<close> and \<open>cache_save\<close>.
\<close>

record 'x machine =
  mc_reader :: reader
  mc_os :: str
  mc_arch :: str
  mc_is_terminal :: bool
  mc_env :: "task \<Rightarrow> str list option"
  mc_process_env :: "(str \<times> str) list"
  mc_compile :: "task \<Rightarrow> call \<Rightarrow> bool \<Rightarrow> ('x, (executor_error, task) result) op"
  mc_resolve :: "call \<Rightarrow> task \<Rightarrow> task \<Rightarrow> bool \<Rightarrow> ('x, (executor_error, task) result) op"
  mc_finalize :: "task \<Rightarrow> task \<Rightarrow> str \<Rightarrow> bool \<Rightarrow> (executor_error, task) result"
  mc_render_deferred :: "task \<Rightarrow> nat \<Rightarrow> cmd \<Rightarrow> str \<times> str \<times> str \<times> vars option"
  mc_shell :: "shell_cmd \<Rightarrow> ('x, (exec_error, unit) result \<times> bool) op"
  mc_condition_layers :: "policy list \<Rightarrow> policy list option"
  mc_policy :: "task \<Rightarrow> ('x, (executor_error, policy option) result) op"
  mc_remove_tmp :: "str \<Rightarrow> ('x, unit) op"
  mc_mkdir :: "str \<Rightarrow> ('x, (io_error, unit) result) op"
  mc_confirm :: "str \<Rightarrow> ('x, bool) op"
  mc_prompt :: "str \<Rightarrow> str list \<Rightarrow> ('x, (prompt_error, str) result) op"
  mc_parse_url :: "cache \<Rightarrow> str option"
  mc_locker :: "cache \<Rightarrow> str option"
  mc_remote_lock :: "str \<Rightarrow> str \<Rightarrow> ('x, (str, nat) result) op"
  mc_file_lock :: "str \<Rightarrow> str \<Rightarrow> ('x, (executor_error, nat) result) op"
  mc_is_lost :: "nat \<Rightarrow> ('x, bool) op"
  mc_unlock :: "nat \<Rightarrow> ('x, unit) op"
  mc_restore :: "str \<Rightarrow> task \<Rightarrow> str \<Rightarrow> ('x, (executor_error, cache_meta option) result) op"
  mc_commit :: "('x, commit_result) op"
  mc_undo :: "('x, (str, unit) result) op"
  mc_save :: "str \<Rightarrow> task \<Rightarrow> str \<Rightarrow> recorded \<Rightarrow> ('x, unit) op"

section \<open>Steps that return\<close>

text \<open>
  What a step establishes when it returns, as a weakest precondition: one rule per construct.
\<close>

definition post :: "('x, 'a) run \<Rightarrow> ((executor_error, 'a) result \<Rightarrow> 'x world \<Rightarrow> bool) \<Rightarrow> 'x world \<Rightarrow> bool" where
  "post m Q w = (case m w of Returned (r, v) \<Rightarrow> Q r v | _ \<Rightarrow> True)"

lemma map_sum_eq_Inr [simp]: "map_sum f id r = Inr x \<longleftrightarrow> r = Inr x"
  by (cases r) auto

lemma map_sum_eq_Inl [simp]: "map_sum f id r = Inl x \<longleftrightarrow> (\<exists>e. r = Inl e \<and> x = f e)"
  by (cases r) auto

lemma post_ok [simp]: "post (ok a) Q w = Q (Inr a) w"
  by (simp add: post_def ok_def)

lemma post_fail [simp]: "post (fail e) Q w = Q (Inl e) w"
  by (simp add: post_def fail_def)

lemma post_lift [simp]: "post (lift r) Q w = Q r w"
  by (simp add: post_def lift_def)

lemma post_gets [simp]: "post (gets f) Q w = Q (Inr (f w)) w"
  by (simp add: post_def gets_def)

lemma post_modify [simp]: "post (modify h) Q w = Q (Inr ()) (h w)"
  by (simp add: post_def modify_def)

lemma post_io [simp]: "post (io i) Q w = Q (map_sum (\<lambda>e. Io (IoMessage e)) id i) w"
  by (simp add: io_def)

lemma post_on_disk:
  "post (on_disk d) Q w = (case d (w_disk w) of
     (r, dk) \<Rightarrow> Q (map_sum (\<lambda>e. Io (IoMessage e)) id r) (w\<lparr>w_disk := dk\<rparr>))"
  by (auto simp: post_def on_disk_def split: prod.splits)

lemma post_emit [simp]: "post (emit ev) Q w = Q (Inr ()) (w\<lparr>w_trace := w_trace w @ [ev]\<rparr>)"
  by (simp add: emit_def)

lemma post_bind [simp]:
  "post (bind m f) Q w = post m (\<lambda>r v. case r of Inr a \<Rightarrow> post (f a) Q v | Inl e \<Rightarrow> Q (Inl e) v) w"
  by (auto simp: post_def bind_def split: outcome.splits prod.splits sum.splits)

lemma post_attempt [simp]: "post (attempt m) Q w = post m (\<lambda>r. Q (Inr r)) w"
  by (auto simp: post_def attempt_def split: outcome.splits prod.splits)

lemma post_map_err [simp]: "post (map_err f m) Q w = post m (\<lambda>r. Q (map_sum f id r)) w"
  by (auto simp: map_err_def post_def bind_def attempt_def lift_def split: outcome.splits prod.splits)

lemma post_outside:
  "post (outside op) Q w =
     (case op (w_disk w) (w_out w) of (a, dk, x) \<Rightarrow> Q (Inr a) (w\<lparr>w_disk := dk, w_out := x\<rparr>))"
  by (auto simp: post_def outside_def split: prod.splits)

lemma post_mono: "post m Q w \<Longrightarrow> (\<And>r v. Q r v \<Longrightarrow> Q' r v) \<Longrightarrow> post m Q' w"
  by (auto simp: post_def split: outcome.splits prod.splits)

lemma post_True [simp]: "post m (\<lambda>_ _. True) w"
  by (auto simp: post_def split: outcome.splits prod.splits)

lemma post_bind_any:
  "(\<And>a v. post (f a) Q v) \<Longrightarrow> (\<And>e v. Q (Inl e) v) \<Longrightarrow> post (bind m f) Q w"
  unfolding post_bind by (rule post_mono [OF post_True]) (simp split: sum.split)

lemma post_conj: "post m (\<lambda>r v. P r v \<and> Q r v) w \<longleftrightarrow> post m P w \<and> post m Q w"
  by (auto simp: post_def split: outcome.splits prod.splits)

lemma postD: "post m Q w \<Longrightarrow> m w = Returned (r, v) \<Longrightarrow> Q r v"
  by (simp add: post_def)

text \<open>A machine operation that leaves the disk alone.\<close>

definition keeps_disk :: "('x, 'a) op \<Rightarrow> bool" where
  "keeps_disk op = (\<forall>dk x. fst (snd (op dk x)) = dk)"

lemma post_keeps_disk:
  assumes "keeps_disk op" "\<And>a x. Q (Inr a) (w\<lparr>w_out := x\<rparr>)"
  shows "post (outside op) Q w"
proof -
  obtain a dk x where op: "op (w_disk w) (w_out w) = (a, dk, x)" by (cases "op (w_disk w) (w_out w)")
  then have "dk = w_disk w" using assms(1) unfolding keeps_disk_def by (metis fst_conv snd_conv)
  moreover have "w\<lparr>w_disk := w_disk w, w_out := x\<rparr> = w\<lparr>w_out := x\<rparr>" by simp
  ultimately show ?thesis using assms(2) [of a x] by (simp add: post_outside op)
qed

end
