(* ===== verification/Exec_Run.thy ===== *)
theory Exec_Run
  imports Exec_World
begin

text \<open>
  The run of a task (\<open>crates/taskcore/src/executor/run.rs\<close>, with the prompts of
  \<open>executor/prompt.rs\<close>): from \<open>run_task_on\<close> through the up-to-date check, the remote cache,
  the dependencies and the commands to the publication of the fingerprint. The operations are
  in the order of the source and take the run of a called task as their argument \<open>sub\<close>;
  \<open>run_task\<close> closes the recursion.

  Dependencies and parallel calls are queued on one thread. The schedule modelled is the one
  that runs each queued task to its end before the next starts, with the join asked after each:
  under failfast the tasks behind a failed one never start. Logging and the buffering of
  command output are left out.
\<close>

section \<open>Compiling\<close>

definition compiled_task_with :: "executor \<Rightarrow> 'x machine \<Rightarrow> call \<Rightarrow> bool \<Rightarrow> ('x, task) run" where
  "compiled_task_with ex mc c evaluate_sh_vars =
     bind (lift (get_task_with_match ex c)) (\<lambda>(orig, wildcards).
     bind (outside (mc_compile mc orig (match_call wildcards c) evaluate_sh_vars)) lift)"

definition fast_compiled_task :: "executor \<Rightarrow> 'x machine \<Rightarrow> call \<Rightarrow> ('x, task) run" where
  "fast_compiled_task ex mc c = compiled_task_with ex mc c False"

definition compiled_task :: "executor \<Rightarrow> 'x machine \<Rightarrow> call \<Rightarrow> ('x, task) run" where
  "compiled_task ex mc c = compiled_task_with ex mc c True"

definition resolve_for :: "'x machine \<Rightarrow> call \<Rightarrow> task \<Rightarrow> task \<Rightarrow> bool \<Rightarrow> ('x, task) run" where
  "resolve_for mc c orig t evaluate_sh_vars = bind (outside (mc_resolve mc c orig t evaluate_sh_vars)) lift"

definition resolved_task :: "executor \<Rightarrow> 'x machine \<Rightarrow> call \<Rightarrow> task \<Rightarrow> bool \<Rightarrow> ('x, task) run" where
  "resolved_task ex mc c t evaluate_sh_vars =
     bind (lift (get_task_with_match ex c)) (\<lambda>(orig, _). resolve_for mc c orig t evaluate_sh_vars)"

definition source_hash :: "executor \<Rightarrow> 'x machine \<Rightarrow> task \<Rightarrow> fs \<Rightarrow> str" where
  "source_hash ex mc t fs =
     (let group_style = o_group (ex_output_style ex);
          markers = list_ex (\<lambda>m. CHR ''{'' \<in> set m) [og_begin group_style, og_end group_style];
          needed = t_sources t \<noteq> [] \<and> (takes_lock ex t \<or> t_reads_checksum t \<or> ex_summary ex \<or> markers)
      in if \<not> needed then []
         else ck_source_hash (source_value (mc_reader mc) fs (checker_new (ex_fingerprint_dir ex) t)))"

definition finalized_task :: "executor \<Rightarrow> 'x machine \<Rightarrow> call \<Rightarrow> task \<Rightarrow> bool \<Rightarrow> ('x, task) run" where
  "finalized_task ex mc c t evaluate_sh_vars =
     bind (lift (get_task_with_match ex c)) (\<lambda>(orig, _).
     bind (resolve_for mc c orig t evaluate_sh_vars) (\<lambda>t.
     bind (gets (\<lambda>w. source_hash ex mc t (dk_fs (w_disk w)))) (\<lambda>h.
     lift (mc_finalize mc orig t h evaluate_sh_vars))))"

definition finalized_compiled_task :: "executor \<Rightarrow> 'x machine \<Rightarrow> call \<Rightarrow> ('x, task) run" where
  "finalized_compiled_task ex mc c = bind (compiled_task ex mc c) (\<lambda>t. finalized_task ex mc c t True)"

definition requires_view :: "executor \<Rightarrow> 'x machine \<Rightarrow> call \<Rightarrow> task \<Rightarrow> ('x, task option) run" where
  "requires_view ex mc c t =
     (if \<not> (case t_requires t of None \<Rightarrow> False | Some rs \<Rightarrow> list_ex (\<lambda>v. vv_name v = ''CHECKSUM'') rs)
      then ok None
      else bind (attempt (resolved_task ex mc c t True)) (\<lambda>r. case r of
        Inl _ \<Rightarrow> ok None
      | Inr res \<Rightarrow>
          let vs = (case t_vars t of None \<Rightarrow> [] | Some vs \<Rightarrow> vs)
          in if t_sources res = [] then ok (Some (t\<lparr>t_vars := Some (im_remove ''CHECKSUM'' vs)\<rparr>))
             else bind (gets (\<lambda>w. ck_source_hash (source_value (mc_reader mc) (dk_fs (w_disk w))
                                 (checker_new (ex_fingerprint_dir ex) res)))) (\<lambda>value.
               ok (Some (t\<lparr>t_vars := Some (im_insert ''CHECKSUM'' (var_from_string value) vs)\<rparr>)))))"

section \<open>Prompting for variables\<close>

definition prompt_for :: "executor \<Rightarrow> 'x machine \<Rightarrow> str \<Rightarrow> str list \<Rightarrow> ('x, str) run" where
  "prompt_for ex mc name enum_values =
     (if \<not> ex_has_prompter ex then fail (Io (Text ''no prompter available''))
      else bind (outside (mc_prompt mc name enum_values)) (\<lambda>r. case r of
        Inr v \<Rightarrow> ok v
      | Inl PromptCancelled \<Rightarrow> fail Cancelled
      | Inl (PromptUnavailable m) \<Rightarrow> fail (Io (Text (''prompt failed: prompt unavailable: '' @ m)))))"

definition remember_prompted :: "str \<Rightarrow> var \<Rightarrow> ('x, unit) run" where
  "remember_prompted name v = modify (\<lambda>w. w\<lparr>w_prompted_vars :=
     Some (im_insert name v (case w_prompted_vars w of None \<Rightarrow> [] | Some vs \<Rightarrow> vs))\<rparr>)"

fun prompt_missing :: "executor \<Rightarrow> 'x machine \<Rightarrow> missing_var list \<Rightarrow> bool \<Rightarrow> call \<Rightarrow> ('x, bool \<times> call) run" where
  "prompt_missing ex mc [] prompted c = ok (prompted, c)"
| "prompt_missing ex mc (v # vs) prompted c =
     bind (gets (\<lambda>w. case w_prompted_vars w of None \<Rightarrow> None | Some pv \<Rightarrow> im_get pv (mv_name v))) (\<lambda>cached.
     case cached of
       Some x \<Rightarrow>
         (if im_get (call_vars c) (mv_name v) = None
          then prompt_missing ex mc vs True (c\<lparr>call_vars := im_insert (mv_name v) x (call_vars c)\<rparr>)
          else prompt_missing ex mc vs prompted c)
     | None \<Rightarrow>
         bind (prompt_for ex mc (mv_name v) (mv_allowed_values v)) (\<lambda>value.
         bind (remember_prompted (mv_name v) (var_from_string value)) (\<lambda>_.
         prompt_missing ex mc vs True
           (c\<lparr>call_vars := im_insert (mv_name v) (var_from_string value) (call_vars c)\<rparr>))))"

definition prompt_task_vars :: "executor \<Rightarrow> 'x machine \<Rightarrow> task \<Rightarrow> call \<Rightarrow> ('x, bool \<times> call) run" where
  "prompt_task_vars ex mc t c =
     (if \<not> can_prompt (mc_is_terminal mc) ex then ok (False, c)
      else prompt_missing ex mc (missing_required_vars t) False c)"

section \<open>Commands\<close>

text \<open>\<open>command_env\<close>: a sandboxed command gets its \<open>TMPDIR\<close>.\<close>

definition command_env :: "'x machine \<Rightarrow> task \<Rightarrow> ancestors \<Rightarrow> (str \<times> str) list \<times> policy list option" where
  "command_env mc t path =
     (let env = split_env (mc_env mc t); sandbox = path_layers path
      in (case sandbox of
            None \<Rightarrow> (env, sandbox)
          | Some layers \<Rightarrow> (case layers_tmpdir layers of
               None \<Rightarrow> (env, sandbox)
             | Some tmp \<Rightarrow>
                 let env = (if env = [] then mc_process_env mc else env)
                 in (filter (\<lambda>(k, _). k \<noteq> ''TMPDIR'') env @ [(''TMPDIR'', tmp)], sandbox))))"

definition exec_shell :: "'x machine \<Rightarrow> task \<Rightarrow> str \<Rightarrow> str list \<Rightarrow> str list \<Rightarrow> ancestors \<Rightarrow> ('x, unit) run" where
  "exec_shell mc t command posix bash path =
     (let (env, sandbox) = command_env mc t path;
          sc = \<lparr>sc_command = command, sc_dir = compute_dir t, sc_env = env, sc_posix_opts = posix,
                sc_bash_opts = bash, sc_sandbox = sandbox\<rparr>
      in bind (outside (mc_shell mc sc)) (\<lambda>(res, dn).
         bind (emit (Command (task_name t) sc res dn)) (\<lambda>_.
         bind (lift (sandbox_verdict t dn)) (\<lambda>_. lift (map_sum Exec id res)))))"

text \<open>The \<open>if\<close> of a command: whether the command goes on.\<close>

definition cmd_condition :: "'x machine \<Rightarrow> task \<Rightarrow> cmd \<Rightarrow> ancestors \<Rightarrow> ('x, bool) run" where
  "cmd_condition mc t cm path =
     (if trim (c_if cm) = [] then ok True
      else let (env, sandbox) = command_env mc t path;
               sandbox = Option.bind sandbox (mc_condition_layers mc);
               sc = \<lparr>sc_command = c_if cm, sc_dir = compute_dir t, sc_env = env, sc_posix_opts = [],
                     sc_bash_opts = [], sc_sandbox = sandbox\<rparr>
           in bind (emit (Condition (task_name t) sc)) (\<lambda>_.
              bind (outside (mc_shell mc sc)) (\<lambda>(res, dn).
              if dn then fail (SandboxDenied (task_name t) DeniedCondition)
              else (case res of
                 Inr _ \<Rightarrow> ok True
               | Inl (SandboxSetup source) \<Rightarrow> fail (ConditionSandbox (task_name t) source)
               | Inl _ \<Rightarrow> ok False))))"

text \<open>\<open>TaskRun\<close> around a command that exited with a status, the failure \<open>ignore_error\<close> is for.\<close>

definition is_task_exit :: "(executor_error, unit) result \<Rightarrow> bool" where
  "is_task_exit r = (case r of Inl (TaskRun _ (Exec (NonZeroExit _))) \<Rightarrow> True | _ \<Rightarrow> False)"

definition is_exec_exit :: "executor_error \<Rightarrow> bool" where
  "is_exec_exit e = (case e of Exec (NonZeroExit _) \<Rightarrow> True | _ \<Rightarrow> False)"

definition sub_call :: "str \<Rightarrow> vars option \<Rightarrow> bool \<Rightarrow> call" where
  "sub_call name vs silent = \<lparr>call_task = name, call_vars = (case vs of None \<Rightarrow> [] | Some v \<Rightarrow> v),
     call_silent = silent, call_indirect = True\<rparr>"

definition run_command ::
  "executor \<Rightarrow> 'x machine \<Rightarrow> (ancestors \<Rightarrow> call \<Rightarrow> ('x, unit) run) \<Rightarrow> task \<Rightarrow> call \<Rightarrow> nat \<Rightarrow> ancestors \<Rightarrow> ('x, unit) run" where
  "run_command ex mc sub t c i path =
     (if \<not> i < length (t_cmds t) then ok ()
      else let cm = t_cmds t ! i
      in bind (cmd_condition mc t cm path) (\<lambda>met.
         if \<not> met then ok ()
         else if c_task cm \<noteq> [] then
           (let how = (if c_defer cm then IgnoredAll
                       else if c_ignore_error cm \<or> t_ignore_error t then IgnoredCallee else IgnoredNo)
            in bind (attempt (sub (path_calling path how) (sub_call (c_task cm) (c_vars cm) (c_silent cm)))) (\<lambda>r.
               if is_task_exit r \<and> (c_ignore_error cm \<or> t_ignore_error t) then ok () else lift r))
         else if c_cmd cm \<noteq> [] then
           (if \<not> should_run_on_current_platform (mc_os mc) (mc_arch mc) (c_platforms cm) then ok ()
            else if ex_dry ex then ok ()
            else bind (attempt (exec_shell mc t (c_cmd cm) (posix_opts ex t cm) (bash_opts ex t cm) path)) (\<lambda>r.
               case r of
                 Inl e \<Rightarrow> if is_exec_exit e \<and> c_ignore_error cm then ok () else fail e
               | Inr _ \<Rightarrow> ok ()))
         else ok ()))"


text \<open>\<open>run_deferred\<close>: rendered with the exit code; only sandbox failures are reported.\<close>

definition render_deferred :: "'x machine \<Rightarrow> task \<Rightarrow> nat \<Rightarrow> cmd \<Rightarrow> cmd" where
  "render_deferred mc t exit_code cm = (case mc_render_deferred mc t exit_code cm of
     (cd, i, tk, vs) \<Rightarrow> cm\<lparr>c_cmd := cd, c_if := i, c_task := tk, c_vars := vs\<rparr>)"

definition run_deferred ::
  "executor \<Rightarrow> 'x machine \<Rightarrow> (ancestors \<Rightarrow> call \<Rightarrow> ('x, unit) run) \<Rightarrow> task \<Rightarrow> call \<Rightarrow> nat \<Rightarrow> nat \<Rightarrow> ancestors
    \<Rightarrow> ('x, executor_error option) run" where
  "run_deferred ex mc sub t c i exit_code path =
     (if \<not> i < length (t_cmds t) then ok None
      else let task = t\<lparr>t_cmds := (t_cmds t)[i := render_deferred mc t exit_code (t_cmds t ! i)]\<rparr>
      in bind (attempt (run_command ex mc sub task c i path)) (\<lambda>r. case r of
           Inl e \<Rightarrow> ok (if is_sandbox_failure e then Some e else None)
         | Inr _ \<Rightarrow> ok None))"

text \<open>\<open>let _ = checker.on_error()\<close>: a failure to mark the task out of date is dropped.\<close>

definition invalidate :: "'x machine \<Rightarrow> checker \<Rightarrow> ('x, unit) run" where
  "invalidate mc ck = bind (attempt (on_disk (on_error (mc_reader mc) ck))) (\<lambda>_. ok ())"

text \<open>The command loop of \<open>execute_locked\<close>: the error that stopped it, the deferred indices and the exit code.\<close>

definition exit_code_of :: "executor_error \<Rightarrow> nat \<Rightarrow> nat" where
  "exit_code_of e prev = (let code = task_exit_code e in if code > 0 then nat (min code 255) else prev)"

fun run_cmds ::
  "executor \<Rightarrow> 'x machine \<Rightarrow> (ancestors \<Rightarrow> call \<Rightarrow> ('x, unit) run) \<Rightarrow> checker \<Rightarrow> task \<Rightarrow> call \<Rightarrow> ancestors
    \<Rightarrow> (nat \<times> cmd) list \<Rightarrow> nat list \<Rightarrow> nat \<Rightarrow> ('x, executor_error option \<times> nat list \<times> nat) run" where
  "run_cmds ex mc sub ck t c path [] deferred exit_code = ok (None, deferred, exit_code)"
| "run_cmds ex mc sub ck t c path ((i, cm) # rest) deferred exit_code =
     (if c_defer cm then run_cmds ex mc sub ck t c path rest (deferred @ [i]) exit_code
      else bind (attempt (run_command ex mc sub t c i path)) (\<lambda>r. case r of
        Inr _ \<Rightarrow> run_cmds ex mc sub ck t c path rest deferred exit_code
      | Inl e \<Rightarrow>
          bind (invalidate mc ck) (\<lambda>_.
          if is_exec_exit e \<and> (c_ignore_error cm \<or> t_ignore_error t)
          then run_cmds ex mc sub ck t c path rest deferred (exit_code_of e exit_code)
          else ok (Some e, deferred, exit_code_of e exit_code))))"

fun run_all_deferred ::
  "executor \<Rightarrow> 'x machine \<Rightarrow> (ancestors \<Rightarrow> call \<Rightarrow> ('x, unit) run) \<Rightarrow> checker \<Rightarrow> task \<Rightarrow> call \<Rightarrow> ancestors
    \<Rightarrow> nat \<Rightarrow> nat list \<Rightarrow> executor_error option \<Rightarrow> ('x, executor_error option) run" where
  "run_all_deferred ex mc sub ck t c path exit_code [] run_err = ok run_err"
| "run_all_deferred ex mc sub ck t c path exit_code (i # is) run_err =
     bind (run_deferred ex mc sub t c i exit_code path) (\<lambda>dn. case (dn, run_err) of
       (Some e, None) \<Rightarrow>
         bind (invalidate mc ck) (\<lambda>_.
         run_all_deferred ex mc sub ck t c path exit_code is (Some e))
     | _ \<Rightarrow> run_all_deferred ex mc sub ck t c path exit_code is run_err)"

section \<open>Setup and dependencies\<close>

fun run_setup :: "(ancestors \<Rightarrow> call \<Rightarrow> ('x, unit) run) \<Rightarrow> ancestors \<Rightarrow> dep list \<Rightarrow> ('x, unit) run" where
  "run_setup sub path [] = ok ()"
| "run_setup sub path (d # ds) =
     bind (sub path (sub_call (d_task d) (d_vars d) (d_silent d))) (\<lambda>_. run_setup sub path ds)"

text \<open>Queued calls, each run to its end and joined before the next starts.\<close>

fun run_queued ::
  "(ancestors \<Rightarrow> call \<Rightarrow> ('x, unit) run) \<Rightarrow> bool \<Rightarrow> ancestors \<Rightarrow> call list \<Rightarrow> executor_error option \<Rightarrow> ('x, unit) run" where
  "run_queued sub failfast path [] first_err = (case first_err of Some e \<Rightarrow> fail e | None \<Rightarrow> ok ())"
| "run_queued sub failfast path (c # cs) first_err =
     bind (attempt (sub path c)) (\<lambda>r. case r of
       Inr _ \<Rightarrow> run_queued sub failfast path cs first_err
     | Inl e \<Rightarrow>
         if failfast then fail e
         else run_queued sub failfast path cs (if first_err = None then Some e else first_err))"

definition run_deps :: "executor \<Rightarrow> (ancestors \<Rightarrow> call \<Rightarrow> ('x, unit) run) \<Rightarrow> task \<Rightarrow> ancestors \<Rightarrow> ('x, unit) run" where
  "run_deps ex sub t path = run_queued sub (ex_failfast ex \<or> t_failfast t) path
     (map (\<lambda>d. sub_call (d_task d) (d_vars d) (d_silent d)) (t_deps t)) None"

section \<open>The remote cache\<close>

definition cache_url :: "'x machine \<Rightarrow> task \<Rightarrow> str option" where
  "cache_url mc t = (if \<not> cache_enabled t then None else Option.bind (t_cache t) (mc_parse_url mc))"

definition cache_verify_meta :: "'x machine \<Rightarrow> task \<Rightarrow> checker \<Rightarrow> cache_meta \<Rightarrow> ('x, checker) run" where
  "cache_verify_meta mc t ck meta =
     (if cm_task meta \<noteq> [] \<and> cm_task meta \<noteq> local_name t then fail (CacheError ''task name mismatch'')
      else bind (gets w_disk) (\<lambda>dk.
        let ck = source_value (mc_reader mc) (dk_fs dk) ck
        in if cm_sources meta \<noteq> [] \<and> cm_sources meta \<noteq> ck_source_hash ck
           then fail (CacheError ''sources checksum mismatch'')
           else bind (io (generates_checksum (mc_reader mc) (dk_fs dk) (ck_spec ck))) (\<lambda>now.
             if now \<noteq> cm_generates meta then fail (CacheError ''generates checksum mismatch'')
             else bind (on_disk (set_up_to_date_with_generates (mc_reader mc) ck now)) (\<lambda>_. ok ck))))"

text \<open>
  The attempt to restore from the cache: whether the task is done, and the checker. A restore
  that is verified and kept ends the run; one that is not is undone before the commands run,
  and a failed undo fails the task.
\<close>

definition keep_restore :: "'x machine \<Rightarrow> checker \<Rightarrow> ('x, bool \<times> checker) run" where
  "keep_restore mc ck =
     bind (outside (mc_commit mc)) (\<lambda>cr. case cr of
       Committed \<Rightarrow> ok (True, ck)
     | CommitCleanup _ \<Rightarrow> ok (True, ck)
     | NotKept _ undo \<Rightarrow>
         bind (invalidate mc ck) (\<lambda>_.
         case undo of
           Inl e \<Rightarrow> fail (CacheError (''undoing the restore that could not be kept: '' @ e))
         | Inr _ \<Rightarrow> ok (False, ck)))"

definition undo_restore :: "'x machine \<Rightarrow> checker \<Rightarrow> ('x, bool \<times> checker) run" where
  "undo_restore mc ck =
     bind (outside (mc_undo mc)) (\<lambda>undo. case undo of
       Inl e \<Rightarrow> fail (CacheError (''undoing the unverified restore: '' @ e))
     | Inr _ \<Rightarrow> ok (False, ck))"

definition settle_restore :: "'x machine \<Rightarrow> task \<Rightarrow> checker \<Rightarrow> cache_meta \<Rightarrow> ('x, bool \<times> checker) run" where
  "settle_restore mc t ck meta =
     bind (attempt (cache_verify_meta mc t ck meta)) (\<lambda>r. case r of
       Inr ck \<Rightarrow> keep_restore mc ck
     | Inl _ \<Rightarrow> undo_restore mc ck)"

definition try_cache :: "executor \<Rightarrow> 'x machine \<Rightarrow> task \<Rightarrow> str option \<Rightarrow> checker \<Rightarrow> ('x, bool \<times> checker) run" where
  "try_cache ex mc t url ck =
     (let keyed = (ck_source_hash ck \<noteq> []);
          stale_key = (keyed \<and> \<not> source_value_is_the_reading ck)
      in case url of
           None \<Rightarrow> ok (False, ck)
         | Some u \<Rightarrow>
             if ex_dry ex \<or> \<not> keyed \<or> stale_key then ok (False, ck)
             else bind (bind (outside (mc_restore mc u t (ck_source_hash ck))) lift) (\<lambda>restored.
               case restored of
                 None \<Rightarrow> ok (False, ck)
               | Some meta \<Rightarrow> settle_restore mc t ck meta))"

text \<open>The short circuits of \<open>execute_locked\<close>: up to date, or restored from the cache.\<close>

fun check_all_preconditions :: "'x machine \<Rightarrow> task \<Rightarrow> precondition list \<Rightarrow> ('x, bool) run" where
  "check_all_preconditions mc t [] = ok True"
| "check_all_preconditions mc t (p # ps) =
     bind (outside (mc_shell mc \<lparr>sc_command = pc_sh p, sc_dir = compute_dir t, sc_env = split_env (mc_env mc t),
        sc_posix_opts = [], sc_bash_opts = [], sc_sandbox = None\<rparr>)) (\<lambda>(r, _).
     if r = Inr () then check_all_preconditions mc t ps else fail (PreconditionError NotMet))"

definition short_circuit ::
  "executor \<Rightarrow> 'x machine \<Rightarrow> task \<Rightarrow> call \<Rightarrow> str option \<Rightarrow> checker \<Rightarrow> ('x, bool \<times> checker) run" where
  "short_circuit ex mc t c url ck =
     (if ex_force_all ex \<or> (\<not> call_indirect c \<and> ex_force ex) then ok (False, ck)
      else bind (check_all_preconditions mc t (t_preconditions t)) (\<lambda>precond_met.
           bind (gets w_disk) (\<lambda>dk.
           bind (io (is_up_to_date (mc_reader mc) dk ck)) (\<lambda>(up_to_date, ck).
           if up_to_date \<and> precond_met then ok (True, ck) else try_cache ex mc t url ck))))"

section \<open>Publication\<close>

text \<open>The end of \<open>execute_locked\<close>, once every command has run without an error to report.\<close>

definition lock_lost :: "'x machine \<Rightarrow> nat option \<Rightarrow> ('x, bool) run" where
  "lock_lost mc lock = (case lock of None \<Rightarrow> ok False | Some g \<Rightarrow> outside (mc_is_lost mc g))"

definition save_to_cache ::
  "'x machine \<Rightarrow> task \<Rightarrow> str option \<Rightarrow> checker \<Rightarrow> recorded option \<Rightarrow> ('x, unit) run" where
  "save_to_cache mc t url ck rec = (case (url, rec) of
     (Some u, Some r) \<Rightarrow>
       if rc_sources r = ck_source_hash ck then outside (mc_save mc u t (ck_source_hash ck) r) else ok ()
   | _ \<Rightarrow> ok ())"

definition publish_run ::
  "'x machine \<Rightarrow> task \<Rightarrow> str option \<Rightarrow> nat option \<Rightarrow> checker \<Rightarrow> bool \<Rightarrow> ('x, unit) run" where
  "publish_run mc t url lock ck lost =
     (if lost then invalidate mc ck
      else bind (gets w_disk) (\<lambda>dk.
           bind (io (checker_post_run (mc_reader mc) (dk_fs dk) ck)) (\<lambda>post.
           bind (lock_lost mc lock) (\<lambda>lost.
           if lost \<or> drifted ck post then invalidate mc ck
           else bind (on_disk (publish (mc_reader mc) ck post)) (\<lambda>rec.
                let ck = (case rec of Some r \<Rightarrow> adopt_source_value (rc_sources r) ck | None \<Rightarrow> ck)
                in save_to_cache mc t url ck rec)))))"

section \<open>Execution\<close>

fun confirm_prompts :: "executor \<Rightarrow> 'x machine \<Rightarrow> str list \<Rightarrow> ('x, unit) run" where
  "confirm_prompts ex mc [] = ok ()"
| "confirm_prompts ex mc (p # ps) =
     (if p \<noteq> [] \<and> \<not> ex_dry ex
      then bind (outside (mc_confirm mc p)) (\<lambda>yes. if yes then confirm_prompts ex mc ps else fail Cancelled)
      else confirm_prompts ex mc ps)"

definition mkdir :: "'x machine \<Rightarrow> task \<Rightarrow> ('x, unit) run" where
  "mkdir mc t = (if compute_dir t = [] then ok ()
     else bind (outside (mc_mkdir mc (compute_dir t))) (\<lambda>_. ok ()))"

text \<open>The sandbox of the task's commands, pushed on the layers above it.\<close>

definition sandboxed_path :: "'x machine \<Rightarrow> task \<Rightarrow> ancestors \<Rightarrow> ('x, str option \<times> ancestors) run" where
  "sandboxed_path mc t path =
     bind (bind (outside (mc_policy mc t)) lift) (\<lambda>pol. case pol of
       None \<Rightarrow> ok (None, path)
     | Some p \<Rightarrow> ok (pl_tmpdir p, path_with_layers path (layers_push (path_layers path) p)))"

definition run_body ::
  "executor \<Rightarrow> 'x machine \<Rightarrow> (ancestors \<Rightarrow> call \<Rightarrow> ('x, unit) run) \<Rightarrow> checker \<Rightarrow> task \<Rightarrow> call \<Rightarrow> ancestors
    \<Rightarrow> ('x, executor_error option) run" where
  "run_body ex mc sub ck t c path =
     bind (run_cmds ex mc sub ck t c path (enumerate 0 (t_cmds t)) [] 0) (\<lambda>(run_err, deferred, exit_code).
     run_all_deferred ex mc sub ck t c path exit_code (rev deferred) run_err)"

definition drop_tmp :: "'x machine \<Rightarrow> str option \<Rightarrow> ('x, unit) run" where
  "drop_tmp mc tmp = (case tmp of None \<Rightarrow> ok () | Some d \<Rightarrow> outside (mc_remove_tmp mc d))"

definition execute_locked ::
  "executor \<Rightarrow> 'x machine \<Rightarrow> (ancestors \<Rightarrow> call \<Rightarrow> ('x, unit) run) \<Rightarrow> task \<Rightarrow> call \<Rightarrow> ancestors
    \<Rightarrow> str option \<Rightarrow> nat option \<Rightarrow> checker \<Rightarrow> ('x, unit) run" where
  "execute_locked ex mc sub t c path url lock ck =
     bind (short_circuit ex mc t c url ck) (\<lambda>(finished, ck).
     if finished then ok ()
     else bind (run_deps ex sub t path) (\<lambda>_.
          bind (confirm_prompts ex mc (t_prompt t)) (\<lambda>_.
          bind (mkdir mc t) (\<lambda>_.
          bind (sandboxed_path mc t path) (\<lambda>(tmp, path).
          bind (run_body ex mc sub ck t c path) (\<lambda>run_err.
          bind (drop_tmp mc tmp) (\<lambda>_.
          bind (lock_lost mc lock) (\<lambda>lost.
          case run_err of
            Some e \<Rightarrow> fail e
          | None \<Rightarrow> if ex_dry ex then ok () else publish_run mc t url lock ck lost))))))))"

definition cache_lock :: "'x machine \<Rightarrow> task \<Rightarrow> str option" where
  "cache_lock mc t = (if \<not> cache_enabled t then None
     else Option.bind (t_cache t) (\<lambda>c. if trim (ca_lock c) = [] then None else mc_locker mc c))"

definition acquire_task_lock :: "executor \<Rightarrow> 'x machine \<Rightarrow> task \<Rightarrow> str \<Rightarrow> ('x, nat option) run" where
  "acquire_task_lock ex mc t checksum =
     (if \<not> takes_lock ex t then ok None
      else let name = lock_name t checksum;
               local_lock = bind (bind (outside (mc_file_lock mc (ex_fingerprint_dir ex @ ''/locks'') name)) lift)
                 (\<lambda>g. ok (Some g))
           in case cache_lock mc t of
                None \<Rightarrow> local_lock
              | Some remote \<Rightarrow> bind (outside (mc_remote_lock mc remote name)) (\<lambda>r. case r of
                   Inr g \<Rightarrow> ok (Some g)
                 | Inl _ \<Rightarrow> local_lock))"

definition unlock :: "'x machine \<Rightarrow> nat option \<Rightarrow> ('x, unit) run" where
  "unlock mc lock = (case lock of None \<Rightarrow> ok () | Some g \<Rightarrow> outside (mc_unlock mc g))"

definition execute ::
  "executor \<Rightarrow> 'x machine \<Rightarrow> (ancestors \<Rightarrow> call \<Rightarrow> ('x, unit) run) \<Rightarrow> task \<Rightarrow> call \<Rightarrow> ancestors \<Rightarrow> ('x, unit) run" where
  "execute ex mc sub t c path =
     bind (run_setup sub path (t_setup t)) (\<lambda>_.
     bind (map_err Completion (finalized_task ex mc c t True)) (\<lambda>t.
     bind (acquire_task_lock ex mc t (t_cache_checksum t)) (\<lambda>lock.
     bind (attempt (execute_locked ex mc sub t c path (cache_url mc t) lock
                      (checker_new (ex_fingerprint_dir ex) t))) (\<lambda>r.
     bind (unlock mc lock) (\<lambda>_. lift r)))))"

text \<open>
  \<open>start_execution\<close>: one execution per key. A result taken from a cell stays shared with it
  (the flag is whether the caller is the error's only owner); a call that waits for a cell its
  own caller is initialising never returns.
\<close>

definition start_execution ::
  "executor \<Rightarrow> 'x machine \<Rightarrow> (ancestors \<Rightarrow> call \<Rightarrow> ('x, unit) run) \<Rightarrow> task \<Rightarrow> call \<Rightarrow> ancestors
    \<Rightarrow> ('x, (bool \<times> executor_error, unit) result) run" where
  "start_execution ex mc sub t c path =
     (let h = task_hash (rd_xxh3 (mc_reader mc)) (rd_fmt (mc_reader mc)) ex t
      in if h = [] \<or> t_watch t
         then bind (attempt (execute ex mc sub t c path)) (\<lambda>r. ok (map_sum (Pair True) id r))
         else bind (gets (\<lambda>w. w_run_once w h)) (\<lambda>cell. case cell of
           Some (Finished r) \<Rightarrow> ok (map_sum (Pair False) id r)
         | Some Running \<Rightarrow> (\<lambda>_. Deadlock)
         | None \<Rightarrow>
             bind (modify (\<lambda>w. w\<lparr>w_run_once := (w_run_once w)(h \<mapsto> Running)\<rparr>)) (\<lambda>_.
             bind (attempt (execute ex mc sub t c path)) (\<lambda>r.
             bind (modify (\<lambda>w. w\<lparr>w_run_once := (w_run_once w)(h \<mapsto> Finished r)\<rparr>)) (\<lambda>_.
             ok (map_sum (Pair False) id r))))))"

definition report_error :: "task \<Rightarrow> bool \<times> executor_error \<Rightarrow> executor_error" where
  "report_error t p = (case snd p of
     Completion inner \<Rightarrow> Shared inner
   | e \<Rightarrow> TaskRun (task_name t) (unwrap_arc (fst p) e))"


text \<open>The task-level \<open>if\<close>: any failure skips the task.\<close>

definition task_condition :: "'x machine \<Rightarrow> task \<Rightarrow> ('x, bool) run" where
  "task_condition mc t =
     (if trim (t_if t) = [] then ok True
      else let sc = \<lparr>sc_command = t_if t, sc_dir = compute_dir t, sc_env = split_env (mc_env mc t),
                     sc_posix_opts = [], sc_bash_opts = [], sc_sandbox = None\<rparr>
           in bind (emit (Condition (task_name t) sc)) (\<lambda>_.
              bind (outside (mc_shell mc sc)) (\<lambda>(r, _). ok (r = Inr ()))))"

text \<open>The per-task call counter, a 32-bit integer that saturates.\<close>

definition bump :: "str \<Rightarrow> 'x world \<Rightarrow> 'x world" where
  "bump name w = w\<lparr>w_task_call_count := (w_task_call_count w)(name := min (w_task_call_count w name + 1) (2 ^ 31 - 1))\<rparr>"

definition count_call :: "executor \<Rightarrow> task \<Rightarrow> ('x, unit) run" where
  "count_call ex t =
     (if ex_watch ex then ok ()
      else bind (modify (bump (t_task t))) (\<lambda>_.
           bind (gets (\<lambda>w. w_task_call_count w (t_task t))) (\<lambda>n.
           if n \<ge> MAXIMUM_TASK_CALL then fail (TaskCalledTooManyTimes (t_task t)) else ok ())))"

definition reported_name :: "task \<Rightarrow> str" where
  "reported_name t = (if t_full_name t = [] then t_task t else t_full_name t)"

definition call_path_key :: "'x machine \<Rightarrow> task \<Rightarrow> str" where
  "call_path_key mc t = reported_name t @ [CHR 0x00] @ hash_hash (rd_xxh3 (mc_reader mc)) (rd_fmt (mc_reader mc)) t"

text \<open>
  \<open>run_task_on\<close> in its two halves: what is decided before the task is entered on the path, and
  the run on the extended path.
\<close>

definition required_vars_early :: "executor \<Rightarrow> 'x machine \<Rightarrow> task \<Rightarrow> ('x, unit) run" where
  "required_vars_early ex mc fast =
     (if can_prompt (mc_is_terminal mc) ex then ok ()
      else lift (map_sum RequiresError id (check_required_vars_set fast)))"

definition prepare_call :: "executor \<Rightarrow> 'x machine \<Rightarrow> call \<Rightarrow> ('x, (task \<times> call) option) run" where
  "prepare_call ex mc c =
     bind (gets (\<lambda>w. inject_prompted_vars (w_prompted_vars w) c)) (\<lambda>c.
     bind (fast_compiled_task ex mc c) (\<lambda>fast.
     if \<not> should_run_on_current_platform (mc_os mc) (mc_arch mc) (t_platforms fast) then ok None
     else bind (required_vars_early ex mc fast) (\<lambda>_.
          bind (compiled_task ex mc c) (\<lambda>t.
          bind (task_condition mc t) (\<lambda>met.
          if \<not> met then ok None
          else bind (prompt_task_vars ex mc t c) (\<lambda>(prompted, c).
               bind (if prompted then compiled_task ex mc c else ok t) (\<lambda>t.
               bind (requires_view ex mc c t) (\<lambda>view.
               let v = (case view of Some v \<Rightarrow> v | None \<Rightarrow> t)
               in bind (lift (map_sum RequiresError id (check_required_vars_set v))) (\<lambda>_.
                  bind (lift (map_sum RequiresError id (check_allowed_values v))) (\<lambda>_.
                  ok (Some (t, c))))))))))))"

definition run_prepared ::
  "executor \<Rightarrow> 'x machine \<Rightarrow> (ancestors \<Rightarrow> call \<Rightarrow> ('x, unit) run) \<Rightarrow> ancestors \<Rightarrow> task \<Rightarrow> call \<Rightarrow> ('x, unit) run" where
  "run_prepared ex mc sub path t c =
     (let key = call_path_key mc t
      in if path_contains path key then fail (CyclicDependency (to_path_through path (reported_name t)))
         else bind (count_call ex t) (\<lambda>_.
              bind (start_execution ex mc sub t c (path_extend path key (reported_name t))) (\<lambda>r.
              lift (map_sum (report_error t) id r))))"

definition run_task_on ::
  "executor \<Rightarrow> 'x machine \<Rightarrow> (ancestors \<Rightarrow> call \<Rightarrow> ('x, unit) run) \<Rightarrow> ancestors \<Rightarrow> call \<Rightarrow> ('x, unit) run" where
  "run_task_on ex mc sub path c =
     bind (prepare_call ex mc c) (\<lambda>p. case p of None \<Rightarrow> ok () | Some (t, c) \<Rightarrow> run_prepared ex mc sub path t c)"

text \<open>The recursion: the fuel bounds the depth of the call path.\<close>

primrec run_task :: "nat \<Rightarrow> executor \<Rightarrow> 'x machine \<Rightarrow> ancestors \<Rightarrow> call \<Rightarrow> ('x, unit) run" where
  "run_task 0 ex mc path c = (\<lambda>_. OutOfFuel)"
| "run_task (Suc n) ex mc path c = run_task_on ex mc (run_task n ex mc) path c"

section \<open>An invocation\<close>

definition run_parallel :: "nat \<Rightarrow> executor \<Rightarrow> 'x machine \<Rightarrow> call list \<Rightarrow> ('x, unit) run" where
  "run_parallel n ex mc calls = run_queued (run_task n ex mc) (ex_failfast ex) [] calls None"

fun run_in_order :: "nat \<Rightarrow> executor \<Rightarrow> 'x machine \<Rightarrow> call list \<Rightarrow> ('x, unit) run" where
  "run_in_order n ex mc [] = ok ()"
| "run_in_order n ex mc (c # cs) = bind (run_task n ex mc [] c) (\<lambda>_. run_in_order n ex mc cs)"

text \<open>\<open>summary_task\<close>, which compiles and hashes but runs nothing.\<close>

definition summary_task :: "executor \<Rightarrow> 'x machine \<Rightarrow> call \<Rightarrow> ('x, task) run" where
  "summary_task ex mc c =
     bind (lift (get_task_with_match ex c)) (\<lambda>(orig, _).
     bind (fast_compiled_task ex mc c) (\<lambda>fast.
     bind (resolve_for mc c orig fast False) (\<lambda>fast.
     bind (if list_ex is_reference (t_sources orig)
           then bind (attempt (compiled_task ex mc c)) (\<lambda>r. case r of
             Inr full \<Rightarrow> bind (resolve_for mc c orig full True) (\<lambda>full. ok (Some full))
           | Inl e \<Rightarrow> if refuses_checksum e then ok None else fail e)
           else ok None) (\<lambda>full.
     bind (gets (\<lambda>w. source_hash ex mc (case full of Some f \<Rightarrow> f | None \<Rightarrow> fast) (dk_fs (w_disk w)))) (\<lambda>h.
     lift (mc_finalize mc orig fast h False))))))"

fun run_summaries :: "executor \<Rightarrow> 'x machine \<Rightarrow> call list \<Rightarrow> ('x, unit) run" where
  "run_summaries ex mc [] = ok ()"
| "run_summaries ex mc (c # cs) = bind (summary_task ex mc c) (\<lambda>_. run_summaries ex mc cs)"

text \<open>
  \<open>prompt_deps_vars\<close>: the missing variables of the dependency tree, breadth first, then the
  prompts. The fuel bounds the number of calls taken from the queue.
\<close>

fun add_missing :: "missing_var list \<Rightarrow> str list \<Rightarrow> missing_var list \<Rightarrow> str list \<times> missing_var list" where
  "add_missing [] seen missing = (seen, missing)"
| "add_missing (v # vs) seen missing =
     (if mv_name v \<in> set seen then add_missing vs seen missing
      else add_missing vs (mv_name v # seen) (missing @ [v]))"

primrec collect_missing ::
  "nat \<Rightarrow> executor \<Rightarrow> 'x machine \<Rightarrow> call list \<Rightarrow> str list \<Rightarrow> str list \<Rightarrow> missing_var list
    \<Rightarrow> ('x, missing_var list) run" where
  "collect_missing 0 ex mc queue visited seen missing = (if queue = [] then ok missing else (\<lambda>_. OutOfFuel))"
| "collect_missing (Suc n) ex mc queue visited seen missing = (case queue of
     [] \<Rightarrow> ok missing
   | c # queue \<Rightarrow>
       bind (fast_compiled_task ex mc c) (\<lambda>ct.
       let (seen, missing) = add_missing (missing_required_vars ct) seen missing
       in if call_task c \<in> set visited then collect_missing n ex mc queue visited seen missing
          else collect_missing n ex mc
            (queue @ map (\<lambda>d. (sub_call (d_task d) (d_vars d) (d_silent d))\<lparr>call_indirect := False\<rparr>) (t_deps ct))
            (call_task c # visited) seen missing))"

fun prompt_all :: "executor \<Rightarrow> 'x machine \<Rightarrow> missing_var list \<Rightarrow> ('x, unit) run" where
  "prompt_all ex mc [] = ok ()"
| "prompt_all ex mc (v # vs) =
     bind (prompt_for ex mc (mv_name v) (mv_allowed_values v)) (\<lambda>value.
     bind (remember_prompted (mv_name v) (var_from_string value)) (\<lambda>_. prompt_all ex mc vs))"

definition prompt_deps_vars :: "nat \<Rightarrow> executor \<Rightarrow> 'x machine \<Rightarrow> call list \<Rightarrow> ('x, unit) run" where
  "prompt_deps_vars n ex mc calls =
     (if \<not> can_prompt (mc_is_terminal mc) ex then ok ()
      else bind (collect_missing n ex mc calls [] [] []) (prompt_all ex mc))"

text \<open>\<open>run_calls\<close>. The watch loop is the argument \<open>watch_tasks\<close>.\<close>

definition run_calls ::
  "(call list \<Rightarrow> ('x, unit) run) \<Rightarrow> nat \<Rightarrow> executor \<Rightarrow> 'x machine \<Rightarrow> call list \<Rightarrow> ('x, unit) run" where
  "run_calls watch_tasks n ex mc calls =
     bind (lift (check_calls ex calls)) (\<lambda>_.
     bind (prompt_deps_vars n ex mc calls) (\<lambda>_.
     if ex_summary ex then run_summaries ex mc calls
     else bind (lift (split_regular_and_watch ex calls)) (\<lambda>(regular, watch).
          bind (if ex_parallel ex then run_parallel n ex mc regular else run_in_order n ex mc regular) (\<lambda>_.
          if watch \<noteq> [] then watch_tasks watch else ok ()))))"

end
