(* ===== verification/Exec_Invariants.thy ===== *)
theory Exec_Invariants
  imports Exec_Run
begin

text \<open>
  What every run keeps. The locale \<open>run_relation\<close> states the interface: a preorder on worlds
  that each elementary change of a run respects. Its lemmas show, once and for all, that every
  operation of the executor respects it, up to \<open>run_task\<close> at any depth. With \<open>exhaustible\<close> off the
  same lemmas also rule out running out of fuel, which the interpretation on the call counters
  turns into the termination of a run; with \<open>waits\<close> off they rule out a run that waits on itself.
\<close>

locale run_relation =
  fixes R :: "'x world \<Rightarrow> 'x world \<Rightarrow> bool"
    and exhaustible :: bool
    and waits :: bool
  assumes refl [simp, intro]: "R w w"
    and trans: "R u v \<Longrightarrow> R v w \<Longrightarrow> R u w"
    and outside_step: "R w (w\<lparr>w_disk := dk, w_out := x\<rparr>)"
    and trace_step: "R w (w\<lparr>w_trace := w_trace w @ [ev]\<rparr>)"
    and prompt_step: "R w (w\<lparr>w_prompted_vars := pv\<rparr>)"
    and count_step: "R w (bump n w)"
    and cell_start: "w_run_once w h = None \<Longrightarrow> R w (w\<lparr>w_run_once := (w_run_once w)(h \<mapsto> Running)\<rparr>)"
    and cell_step: "w_run_once w h = None \<Longrightarrow> R (w\<lparr>w_run_once := (w_run_once w)(h \<mapsto> Running)\<rparr>) v
      \<Longrightarrow> R w (v\<lparr>w_run_once := (w_run_once v)(h \<mapsto> Finished r)\<rparr>)"
begin

text \<open>
  From \<open>v\<close> the step returns a world after \<open>v\<close> and a value that satisfies \<open>Q\<close>; \<open>holds\<close> says so
  of every world after \<open>w\<close>.
\<close>

definition works :: "'x world \<Rightarrow> ('x, 'a) run \<Rightarrow> ('a \<Rightarrow> bool) \<Rightarrow> bool" where
  "works v m Q = (case m v of
     Returned (r, v') \<Rightarrow> R v v' \<and> (\<forall>a. r = Inr a \<longrightarrow> Q a)
   | Deadlock \<Rightarrow> waits
   | OutOfFuel \<Rightarrow> exhaustible)"

definition holds :: "'x world \<Rightarrow> ('x, 'a) run \<Rightarrow> ('a \<Rightarrow> bool) \<Rightarrow> bool" where
  "holds w m Q = (\<forall>v. R w v \<longrightarrow> works v m Q)"

abbreviation safe :: "'x world \<Rightarrow> ('x, 'a) run \<Rightarrow> bool" where
  "safe w m \<equiv> holds w m (\<lambda>_. True)"

named_theorems safe_rules

lemma holds_later: "holds w m Q \<Longrightarrow> R w v \<Longrightarrow> holds v m Q"
  unfolding holds_def using trans by blast

lemma holds_ok [safe_rules]: "Q a \<Longrightarrow> holds w (ok a) Q"
  by (simp add: holds_def works_def ok_def)

lemma safe_fail [safe_rules]: "holds w (fail e) Q"
  by (simp add: holds_def works_def fail_def)

lemma holds_lift [safe_rules]: "(\<And>a. r = Inr a \<Longrightarrow> Q a) \<Longrightarrow> holds w (lift r) Q"
  by (simp add: holds_def works_def lift_def)

lemma works_bind:
  assumes "works v m Q" and "\<And>a v'. m v = Returned (Inr a, v') \<Longrightarrow> R v v' \<Longrightarrow> Q a \<Longrightarrow> works v' (f a) Q'"
  shows "works v (bind m f) Q'"
proof (cases "m v")
  case (Returned p)
  obtain r v' where p: "p = (r, v')" by (cases p)
  show ?thesis
  proof (cases r)
    case (Inl e)
    with assms(1) Returned p show ?thesis by (simp add: bind_def works_def)
  next
    case (Inr a)
    with assms(1) Returned p have "R v v'" "Q a" by (simp_all add: works_def)
    with assms(2) Inr Returned p have "works v' (f a) Q'" by simp
    with \<open>R v v'\<close> Inr Returned p show ?thesis
      by (auto simp: bind_def works_def split: outcome.splits prod.splits intro: trans)
  qed
next
  case OutOfFuel
  then have "works v (bind m f) Q' \<longleftrightarrow> works v m Q" by (simp add: bind_def works_def)
  with assms(1) show ?thesis by simp
next
  case Deadlock
  then have "works v (bind m f) Q' \<longleftrightarrow> works v m Q" by (simp add: bind_def works_def)
  with assms(1) show ?thesis by simp
qed

lemma holds_bind:
  "holds w m Q \<Longrightarrow> (\<And>a v. R w v \<Longrightarrow> Q a \<Longrightarrow> works v (f a) Q') \<Longrightarrow> holds w (bind m f) Q'"
  unfolding holds_def by (blast intro: works_bind trans)

lemma holds_bind_same:
  "holds w m Q \<Longrightarrow> (\<And>a. Q a \<Longrightarrow> holds w (f a) Q') \<Longrightarrow> holds w (bind m f) Q'"
  by (rule holds_bind [of w m Q]) (auto simp: holds_def)

lemma safe_bind [safe_rules]:
  "safe w m \<Longrightarrow> (\<And>a. holds w (f a) Q) \<Longrightarrow> holds w (bind m f) Q"
  by (rule holds_bind_same [where Q = "\<lambda>_. True"]) auto

lemma safe_attempt [safe_rules]: "safe w m \<Longrightarrow> safe w (attempt m)"
  unfolding holds_def works_def attempt_def by (auto split: outcome.split_asm outcome.split prod.splits)

lemma safe_map_err [safe_rules]: "safe w m \<Longrightarrow> safe w (map_err f m)"
  unfolding map_err_def by (intro safe_rules) auto

lemma safe_gets [safe_rules]: "safe w (gets f)"
  by (simp add: holds_def works_def gets_def)

lemma safe_outside [safe_rules]: "safe w (outside op)"
  by (auto simp: holds_def works_def outside_def outside_step split: prod.splits)

lemma safe_on_disk [safe_rules]: "safe w (on_disk f)"
  using outside_step [where x = "w_out u" and w = u for u]
  by (auto simp: holds_def works_def on_disk_def split: prod.splits)

lemma safe_invalidate [safe_rules]: "safe w (invalidate mc ck)"
  unfolding invalidate_def by (intro safe_rules) simp

lemma safe_emit [safe_rules]: "safe w (emit ev)"
  by (simp add: holds_def works_def emit_def modify_def trace_step)

lemma safe_io [safe_rules]: "safe w (io r)"
  by (simp add: holds_def works_def io_def lift_def)

lemma safe_remember [safe_rules]: "safe w (remember_prompted n v)"
  by (simp add: holds_def works_def remember_prompted_def modify_def prompt_step)

lemma safe_if [safe_rules]:
  "(b \<Longrightarrow> holds w m Q) \<Longrightarrow> (\<not> b \<Longrightarrow> holds w m' Q) \<Longrightarrow> holds w (if b then m else m') Q"
  by simp

lemma safe_option [safe_rules]:
  "(x = None \<Longrightarrow> holds w m Q) \<Longrightarrow> (\<And>a. x = Some a \<Longrightarrow> holds w (f a) Q)
    \<Longrightarrow> holds w (case x of None \<Rightarrow> m | Some a \<Rightarrow> f a) Q"
  by (cases x) auto

lemma safe_sum [safe_rules]:
  "(\<And>e. x = Inl e \<Longrightarrow> holds w (f e) Q) \<Longrightarrow> (\<And>a. x = Inr a \<Longrightarrow> holds w (g a) Q)
    \<Longrightarrow> holds w (case x of Inl e \<Rightarrow> f e | Inr a \<Rightarrow> g a) Q"
  by (cases x) auto

lemma safe_prod [safe_rules]:
  "(\<And>a b. x = (a, b) \<Longrightarrow> holds w (f a b) Q) \<Longrightarrow> holds w (case x of (a, b) \<Rightarrow> f a b) Q"
  by (cases x) auto


lemma safe_lift [safe_rules]: "safe w (lift r)"
  by (simp add: holds_lift)

text \<open>The operations, in the order of the source.\<close>

lemma safe_compiled [safe_rules]: "safe w (compiled_task_with ex mc c sh)"
  unfolding compiled_task_with_def by (intro safe_rules)

lemma safe_compiled_task [safe_rules]:
  "safe w (compiled_task ex mc c)" "safe w (fast_compiled_task ex mc c)"
  unfolding compiled_task_def fast_compiled_task_def by (rule safe_compiled)+

lemma safe_resolve_for [safe_rules]: "safe w (resolve_for mc c orig t sh)"
  unfolding resolve_for_def by (intro safe_rules)

lemma safe_resolved_task [safe_rules]: "safe w (resolved_task ex mc c t sh)"
  unfolding resolved_task_def by (intro safe_rules)

lemma safe_finalized_task [safe_rules]: "safe w (finalized_task ex mc c t sh)"
  unfolding finalized_task_def by (intro safe_rules)

lemma safe_requires_view [safe_rules]: "safe w (requires_view ex mc c t)"
  unfolding requires_view_def Let_def by (intro safe_rules) auto

lemma safe_prompt_for [safe_rules]: "safe w (prompt_for ex mc n vs)"
  unfolding prompt_for_def by (intro safe_rules) (auto split: prompt_error.splits intro: safe_rules)

lemma safe_prompt_missing [safe_rules]: "safe w (prompt_missing ex mc vs b c)"
  by (induction vs arbitrary: b c) (auto intro!: safe_rules)

lemma safe_prompt_task_vars [safe_rules]: "safe w (prompt_task_vars ex mc t c)"
  unfolding prompt_task_vars_def by (intro safe_rules) auto

lemma safe_exec_shell [safe_rules]: "safe w (exec_shell mc t cd posix bash path)"
  unfolding exec_shell_def Let_def by (intro safe_rules)

lemma safe_cmd_condition [safe_rules]: "safe w (cmd_condition mc t cm path)"
  unfolding cmd_condition_def Let_def
  by (intro safe_rules) (auto split: exec_error.splits intro: safe_rules)

lemma safe_run_command [safe_rules]:
  "(\<And>p d. safe w (sub p d)) \<Longrightarrow> safe w (run_command ex mc sub t c i path)"
  unfolding run_command_def Let_def by (intro safe_rules) auto

lemma safe_run_deferred [safe_rules]:
  "(\<And>p d. safe w (sub p d)) \<Longrightarrow> safe w (run_deferred ex mc sub t c i xc path)"
  unfolding run_deferred_def Let_def by (intro safe_rules) auto

lemma safe_run_cmds [safe_rules]:
  "(\<And>p d. safe w (sub p d)) \<Longrightarrow> safe w (run_cmds ex mc sub ck t c path cmds deferred xc)"
proof (induction cmds arbitrary: deferred xc)
  case (Cons p cmds)
  obtain i cm where p: "p = (i, cm)" by (cases p)
  show ?case unfolding p run_cmds.simps by (intro safe_rules Cons.IH Cons.prems) auto
qed (simp add: safe_rules)

lemma safe_run_all_deferred [safe_rules]:
  "(\<And>p d. safe w (sub p d)) \<Longrightarrow> safe w (run_all_deferred ex mc sub ck t c path xc is err)"
proof (induction "is" arbitrary: err)
  case (Cons i "is")
  show ?case unfolding run_all_deferred.simps
    by (intro safe_rules Cons.IH Cons.prems)
qed (simp add: safe_rules)

lemma safe_run_setup [safe_rules]: "(\<And>p d. safe w (sub p d)) \<Longrightarrow> safe w (run_setup sub path ds)"
  by (induction ds) (auto intro!: safe_rules)

lemma safe_run_queued [safe_rules]:
  "(\<And>p d. safe w (sub p d)) \<Longrightarrow> safe w (run_queued sub failfast path cs err)"
proof (induction cs arbitrary: err)
  case (Cons c cs)
  show ?case unfolding run_queued.simps by (intro safe_rules Cons.IH Cons.prems)
qed (auto intro: safe_rules split: option.splits)

lemma safe_run_deps [safe_rules]: "(\<And>p d. safe w (sub p d)) \<Longrightarrow> safe w (run_deps ex sub t path)"
  unfolding run_deps_def by (rule safe_run_queued)

lemma safe_cache_verify_meta [safe_rules]: "safe w (cache_verify_meta mc t ck meta)"
  unfolding cache_verify_meta_def Let_def by (intro safe_rules) auto

lemma safe_settle_restore [safe_rules]: "safe w (settle_restore mc t ck meta)"
  unfolding settle_restore_def keep_restore_def undo_restore_def
  by (intro safe_rules) (auto split: commit_result.splits intro!: safe_rules)

lemma safe_try_cache [safe_rules]: "safe w (try_cache ex mc t url ck)"
  unfolding try_cache_def Let_def by (intro safe_rules) auto

lemma safe_check_all_preconditions [safe_rules]: "safe w (check_all_preconditions mc t ps)"
  by (induction ps) (auto intro!: safe_rules)

lemma safe_short_circuit [safe_rules]: "safe w (short_circuit ex mc t c url ck)"
  unfolding short_circuit_def by (intro safe_rules) auto

lemma safe_lock_lost [safe_rules]: "safe w (lock_lost mc lock)"
  unfolding lock_lost_def by (intro safe_rules) auto

lemma safe_save_to_cache [safe_rules]: "safe w (save_to_cache mc t url ck rec)"
  unfolding save_to_cache_def by (intro safe_rules) auto

lemma safe_publish_run [safe_rules]: "safe w (publish_run mc t url lock ck lost)"
  unfolding publish_run_def Let_def by (intro safe_rules)

lemma safe_confirm_prompts [safe_rules]: "safe w (confirm_prompts ex mc ps)"
  by (induction ps) (auto intro!: safe_rules)

lemma safe_mkdir [safe_rules]: "safe w (mkdir mc t)"
  unfolding mkdir_def by (intro safe_rules) auto

lemma safe_sandboxed_path [safe_rules]: "safe w (sandboxed_path mc t path)"
  unfolding sandboxed_path_def by (intro safe_rules) auto

lemma safe_run_body [safe_rules]:
  "(\<And>p d. safe w (sub p d)) \<Longrightarrow> safe w (run_body ex mc sub ck t c path)"
  unfolding run_body_def by (intro safe_rules)

lemma safe_drop_tmp [safe_rules]: "safe w (drop_tmp mc tmp)"
  unfolding drop_tmp_def by (intro safe_rules) auto

lemma safe_execute_locked [safe_rules]:
  "(\<And>p d. safe w (sub p d)) \<Longrightarrow> safe w (execute_locked ex mc sub t c path url lock ck)"
  unfolding execute_locked_def by (intro safe_rules) auto

lemma safe_acquire_task_lock [safe_rules]: "safe w (acquire_task_lock ex mc t h)"
  unfolding acquire_task_lock_def Let_def by (intro safe_rules) auto

lemma safe_unlock [safe_rules]: "safe w (unlock mc lock)"
  unfolding unlock_def by (intro safe_rules) auto

lemma safe_execute [safe_rules]:
  "(\<And>p d. safe w (sub p d)) \<Longrightarrow> safe w (execute ex mc sub t c path)"
  unfolding execute_def by (intro safe_rules)


lemma safe_at: "safe w m \<Longrightarrow> R w v \<Longrightarrow> works v m (\<lambda>_. True)"
  by (simp add: holds_def)

abbreviation joins :: "executor \<Rightarrow> 'x machine \<Rightarrow> task \<Rightarrow> bool" where
  "joins ex mc t \<equiv> task_hash (rd_xxh3 (mc_reader mc)) (rd_fmt (mc_reader mc)) ex t \<noteq> [] \<and> \<not> t_watch t"

lemma safe_start_execution:
  assumes "\<And>p d. safe w (sub p d)" and "joins ex mc t \<Longrightarrow> waits"
  shows "safe w (start_execution ex mc sub t c path)"
  unfolding holds_def
proof (intro allI impI)
  fix v assume v: "R w v"
  define h where "h = task_hash (rd_xxh3 (mc_reader mc)) (rd_fmt (mc_reader mc)) ex t"
  have exec: "safe w (execute ex mc sub t c path)" by (rule safe_execute) (rule assms)
  show "works v (start_execution ex mc sub t c path) (\<lambda>_. True)"
  proof (cases "h = [] \<or> t_watch t")
    case True
    have "safe w (bind (attempt (execute ex mc sub t c path)) (\<lambda>r. ok (map_sum (Pair True) id r)))"
      by (intro safe_rules exec) simp
    with True v show ?thesis by (simp add: start_execution_def Let_def flip: h_def) (rule safe_at)
  next
    case False
    show ?thesis
    proof (cases "w_run_once v h")
      case None
      let ?v = "v\<lparr>w_run_once := (w_run_once v)(h \<mapsto> Running)\<rparr>"
      have "R w ?v" using v cell_start [OF None] by (rule trans)
      then have "works ?v (execute ex mc sub t c path) (\<lambda>_. True)" using exec by (simp add: holds_def)
      with None False show ?thesis
        by (auto simp: start_execution_def Let_def works_def bind_def gets_def modify_def attempt_def ok_def
            simp flip: h_def split: outcome.splits intro: cell_step)
    next
      case (Some cell)
      with False have "works v (start_execution ex mc sub t c path) (\<lambda>_. True) \<longleftrightarrow> cell = Finished r \<or> waits"
        if "cell = Running \<or> cell = Finished r" for r
        using that
        by (auto simp: start_execution_def Let_def works_def bind_def gets_def ok_def simp flip: h_def)
      moreover have waits using assms(2) False by (simp flip: h_def)
      ultimately show ?thesis by (cases cell) blast+
    qed
  qed
qed

lemma prepare_call_task:
  assumes "\<And>d. holds w (compiled_task ex mc d) P"
  shows "holds w (prepare_call ex mc c) (\<lambda>p. \<forall>t d. p = Some (t, d) \<longrightarrow> P t)"
proof -
  have "holds w (task_condition mc t) (\<lambda>_. True)" for t
    unfolding task_condition_def Let_def by (intro safe_rules) auto
  moreover have "safe w (required_vars_early ex mc fast)" for fast
    unfolding required_vars_early_def by (intro safe_rules) auto
  ultimately show ?thesis
    unfolding prepare_call_def Let_def
    by (intro safe_rules holds_bind_same [OF assms] holds_bind_same [where Q = P] assms) auto
qed

text \<open>
  A call respects the relation when the calls below it do, from the world in which the call has
  been counted.
\<close>

lemma safe_run_prepared:
  assumes "joins ex mc t \<Longrightarrow> waits" and "\<And>v p d. R w v \<Longrightarrow> ex_watch ex \<or> w_task_call_count v (t_task t) + 1 < MAXIMUM_TASK_CALL
      \<Longrightarrow> safe (if ex_watch ex then v else bump (t_task t) v) (sub p d)"
  shows "safe w (run_prepared ex mc sub path t c)"
  unfolding holds_def
proof (intro allI impI)
  fix v assume v: "R w v"
  let ?rest = "bind (start_execution ex mc sub t c (path_extend path (call_path_key mc t) (reported_name t)))
    (\<lambda>r. lift (map_sum (report_error t) id r))"
  have rest: "works u ?rest (\<lambda>_. True)" if "\<And>p d. safe u (sub p d)" for u
  proof (rule safe_at)
    show "safe u ?rest" by (intro safe_rules safe_start_execution that assms(1))
  qed simp
  show "works v (run_prepared ex mc sub path t c) (\<lambda>_. True)"
  proof (cases "path_contains path (call_path_key mc t)")
    case True
    then show ?thesis by (simp add: run_prepared_def Let_def works_def fail_def)
  next
    case False
    have "works v (bind (count_call ex t) (\<lambda>_. ?rest)) (\<lambda>_. True)"
    proof (rule works_bind)
      show "works v (count_call ex t) (\<lambda>_. True)"
        by (simp add: count_call_def works_def bind_def modify_def gets_def ok_def fail_def count_step)
      fix a u assume u: "count_call ex t v = Returned (Inr a, u)"
      then have "u = (if ex_watch ex then v else bump (t_task t) v)
          \<and> (ex_watch ex \<or> w_task_call_count v (t_task t) + 1 < MAXIMUM_TASK_CALL)"
        by (auto simp: count_call_def bind_def modify_def gets_def ok_def fail_def bump_def MAXIMUM_TASK_CALL_def
            split: if_splits)
      with assms(2) [OF v] show "works u ?rest (\<lambda>_. True)" by (intro rest) auto
    qed
    with False show ?thesis by (simp add: run_prepared_def Let_def)
  qed
qed

lemma safe_run_task_on:
  assumes "\<And>d. holds w (compiled_task ex mc d) P"
    and "\<And>t. P t \<Longrightarrow> joins ex mc t \<Longrightarrow> waits"
    and "\<And>v t p d. R w v \<Longrightarrow> P t \<Longrightarrow> ex_watch ex \<or> w_task_call_count v (t_task t) + 1 < MAXIMUM_TASK_CALL
      \<Longrightarrow> safe (if ex_watch ex then v else bump (t_task t) v) (sub p d)"
  shows "safe w (run_task_on ex mc sub path c)"
  unfolding run_task_on_def
proof (rule holds_bind_same [OF prepare_call_task [OF assms(1)]])
  fix p :: "(task \<times> call) option"
  assume p: "\<forall>t d. p = Some (t, d) \<longrightarrow> P t"
  show "safe w (case p of None \<Rightarrow> ok () | Some (t, c) \<Rightarrow> run_prepared ex mc sub path t c)"
    using p by (intro safe_rules safe_run_prepared assms(2,3)) auto
qed

end

text \<open>With both escapes allowed, every run at every depth respects the relation.\<close>

locale run_invariant = run_relation R True True for R :: "'x world \<Rightarrow> 'x world \<Rightarrow> bool"
begin

lemma safe_run_task: "safe w (run_task n ex mc path c)"
proof (induction n arbitrary: w path c)
  case 0
  then show ?case by (simp add: holds_def works_def)
next
  case (Suc n)
  then show ?case
    by (simp del: fun_upd_apply) (rule safe_run_task_on [where P = "\<lambda>_. True"], auto intro: safe_rules)
qed

lemma run_task_related:
  "run_task n ex mc path c w = Returned (r, v) \<Longrightarrow> R w v"
  using safe_run_task [of w n ex mc path c] by (auto simp: holds_def works_def dest!: spec [of _ w])

end

section \<open>Interpretations\<close>

text \<open>Shared results never change, commands are only added to the trace.\<close>

definition extends :: "'x world \<Rightarrow> 'x world \<Rightarrow> bool" where
  "extends w v = ((\<forall>h cell. w_run_once w h = Some cell \<longrightarrow> w_run_once v h = Some cell)
     \<and> (\<exists>new. w_trace v = w_trace w @ new))"

interpretation history: run_invariant extends
proof
  fix w :: "'x world" and h v and r :: "(executor_error, unit) result"
  assume "w_run_once w h = None"
    and "extends (w\<lparr>w_run_once := (w_run_once w)(h \<mapsto> Running)\<rparr>) v"
  then show "extends w (v\<lparr>w_run_once := (w_run_once v)(h \<mapsto> Finished r)\<rparr>)"
    by (auto simp: extends_def split: if_splits)
qed (auto simp: extends_def bump_def)

text \<open>The call counters only grow, up to the value they saturate at.\<close>

definition counted :: "'x world \<Rightarrow> 'x world \<Rightarrow> bool" where
  "counted w v = (\<forall>n. min (w_task_call_count w n) (2 ^ 31 - 1) \<le> w_task_call_count v n)"

lemma counted_trans: "counted u v \<Longrightarrow> counted v w \<Longrightarrow> counted u w"
  unfolding counted_def by (smt (verit, best))

lemma counted_relation: "run_relation counted"
proof
  show "counted u v \<Longrightarrow> counted v w \<Longrightarrow> counted u w" for u v w :: "'x world"
    by (rule counted_trans)
qed (auto simp: counted_def bump_def)

interpretation depth: run_relation counted False True
  by (rule counted_relation)

interpretation returning: run_relation counted False False
  by (rule counted_relation)

end
