(* ===== verification/Exec_Termination.thy ===== *)
theory Exec_Termination
  imports Exec_Invariants
begin

text \<open>
  A run ends. Every call that is entered counts against its task, so the calls left are bounded
  by the number of tasks times \<open>MAXIMUM_TASK_CALL\<close>, and with it the depth of the call path; the
  fuel of \<open>run_task\<close> is enough as soon as it exceeds that bound. What remains is a run that waits
  on itself: it cannot happen when every call runs, and it does happen for a task that runs once
  and calls itself with other variables.
\<close>

section \<open>The budget of a run\<close>

definition task_names :: "taskfile \<Rightarrow> str set" where
  "task_names tf = t_task ` snd ` set (tf_tasks tf)"

definition budget :: "str set \<Rightarrow> 'x world \<Rightarrow> nat" where
  "budget N w = (\<Sum>n\<in>N. nat (MAXIMUM_TASK_CALL - w_task_call_count w n))"

text \<open>What a run relies on the compilation for: \<open>compile_run\<close> copies the task's key.\<close>

definition keeps_names :: "'x machine \<Rightarrow> bool" where
  "keeps_names mc = (\<forall>orig c sh dk x t. fst (mc_compile mc orig c sh dk x) = Inr t \<longrightarrow> t_task t = t_task orig)"

definition always_runs :: "taskfile \<Rightarrow> executor \<Rightarrow> 'x machine \<Rightarrow> bool" where
  "always_runs tf ex mc = (\<forall>orig\<in>snd ` set (tf_tasks tf). \<forall>c sh dk x t. fst (mc_compile mc orig c sh dk x) = Inr t
     \<longrightarrow> task_hash (rd_xxh3 (mc_reader mc)) (rd_fmt (mc_reader mc)) ex t = [])"

lemma budget_counted: "counted w v \<Longrightarrow> budget N v \<le> budget N w"
  unfolding budget_def counted_def MAXIMUM_TASK_CALL_def
proof (intro sum_mono)
  fix n assume "\<forall>n. min (w_task_call_count w n) (2 ^ 31 - 1) \<le> w_task_call_count v n"
  then have "min (w_task_call_count w n) (2 ^ 31 - 1) \<le> w_task_call_count v n" by blast
  then show "nat (1000 - w_task_call_count v n) \<le> nat (1000 - w_task_call_count w n)" by simp
qed

lemma budget_bump:
  assumes "finite N" "n \<in> N" "w_task_call_count w n + 1 < MAXIMUM_TASK_CALL"
  shows "budget N (bump n w) < budget N w"
  unfolding budget_def
proof (rule sum_strict_mono_ex1)
  show "\<forall>x\<in>N. nat (MAXIMUM_TASK_CALL - w_task_call_count (bump n w) x)
      \<le> nat (MAXIMUM_TASK_CALL - w_task_call_count w x)"
    using assms(3) by (auto simp: bump_def MAXIMUM_TASK_CALL_def)
  show "\<exists>x\<in>N. nat (MAXIMUM_TASK_CALL - w_task_call_count (bump n w) x)
      < nat (MAXIMUM_TASK_CALL - w_task_call_count w x)"
    using assms(2,3) by (intro bexI [of _ n]) (auto simp: bump_def MAXIMUM_TASK_CALL_def)
qed (rule assms(1))

lemma budget_initial:
  assumes "\<And>n. 0 \<le> w_task_call_count w n"
  shows "budget N w \<le> 1000 * card N"
proof -
  have "budget N w \<le> (\<Sum>n\<in>N. 1000)"
    unfolding budget_def MAXIMUM_TASK_CALL_def using assms by (intro sum_mono) (simp add: nat_le_iff)
  then show ?thesis by simp
qed

text \<open>The tasks a call compiles to: entries of the Taskfile, compiled.\<close>

lemma compiled_from:
  assumes "ex_taskfile ex = Some tf" "im_ok (tf_tasks tf)" "compiled_task ex mc d w = Returned (Inr t, v)"
  shows "\<exists>orig c dk x. orig \<in> snd ` set (tf_tasks tf) \<and> fst (mc_compile mc orig c True dk x) = Inr t"
proof -
  obtain orig ws where g: "get_task_with_match ex d = Inr (orig, ws)"
    using assms(3) by (cases "get_task_with_match ex d")
      (auto simp: compiled_task_def compiled_task_with_def bind_def lift_def)
  have "orig \<in> snd ` set (tf_tasks tf)"
    using g unfolding get_task_with_match_resolved [OF assms(1,2)] by (rule resolved_by_member)
  moreover have "fst (mc_compile mc orig (match_call ws d) True (w_disk w) (w_out w)) = Inr t"
    using assms(3) g
    by (auto simp: compiled_task_def compiled_task_with_def bind_def lift_def outside_def
        split: prod.splits sum.splits)
  ultimately show ?thesis by blast
qed

lemma compiled_task_post:
  assumes "run_relation R" "ex_taskfile ex = Some tf" "im_ok (tf_tasks tf)"
    and "\<And>orig c dk x t. orig \<in> snd ` set (tf_tasks tf) \<Longrightarrow> fst (mc_compile mc orig c True dk x) = Inr t \<Longrightarrow> P t"
  shows "run_relation.holds R f g w (compiled_task ex mc d) P"
proof -
  have "run_relation.holds R f g w (compiled_task ex mc d) (\<lambda>_. True)"
    by (rule run_relation.safe_compiled_task [OF assms(1)])
  then show ?thesis
    using compiled_from [OF assms(2,3), of mc d] assms(4)
    by (fastforce simp: run_relation.holds_def [OF assms(1)] run_relation.works_def [OF assms(1)]
        split: outcome.splits prod.splits)
qed

section \<open>Enough fuel\<close>

lemma run_task_enough:
  assumes "ex_taskfile ex = Some tf" "im_ok (tf_tasks tf)" "\<not> ex_watch ex" "keeps_names mc"
    and "waits \<or> always_runs tf ex mc" and "budget (task_names tf) w < n"
  shows "run_relation.holds counted False waits w (run_task n ex mc path c) (\<lambda>_. True)"
  using assms(6)
proof (induction n arbitrary: w path c)
  case (Suc n)
  let ?P = "\<lambda>t. t_task t \<in> task_names tf
    \<and> (waits \<or> task_hash (rd_xxh3 (mc_reader mc)) (rd_fmt (mc_reader mc)) ex t = [])"
  have fin: "finite (task_names tf)" by (simp add: task_names_def)
  show ?case unfolding run_task.simps
  proof (rule run_relation.safe_run_task_on [OF counted_relation, where P = ?P])
    show "run_relation.holds counted False waits w (compiled_task ex mc d) ?P" for d
      using assms(4,5)
      by (intro compiled_task_post [OF counted_relation assms(1,2)])
        (auto simp: keeps_names_def always_runs_def task_names_def)
    fix v :: "'a world" and t p d
    assume v: "counted w v" "?P t"
      and "ex_watch ex \<or> w_task_call_count v (t_task t) + 1 < MAXIMUM_TASK_CALL"
    then have "budget (task_names tf) (bump (t_task t) v) < budget (task_names tf) v"
      using assms(3) budget_bump [OF fin] by blast
    with budget_counted [OF v(1), of "task_names tf"] Suc.prems
    have "budget (task_names tf) (bump (t_task t) v) < n" by linarith
    with Suc.IH assms(3)
    show "run_relation.holds counted False waits (if ex_watch ex then v else bump (t_task t) v)
        (run_task n ex mc p d) (\<lambda>_. True)" by simp
  qed auto
qed simp

text \<open>An invocation without prompts: its calls in order or in parallel.\<close>

definition run_regular :: "nat \<Rightarrow> executor \<Rightarrow> 'x machine \<Rightarrow> call list \<Rightarrow> ('x, unit) run" where
  "run_regular n ex mc calls = (if ex_parallel ex then run_parallel n ex mc calls else run_in_order n ex mc calls)"

lemma safe_run_regular:
  assumes "run_relation R" "\<And>p c. run_relation.holds R f g w (run_task n ex mc p c) (\<lambda>_. True)"
  shows "run_relation.holds R f g w (run_regular n ex mc calls) (\<lambda>_. True)"
proof -
  have "run_relation.holds R f g w (run_in_order n ex mc calls) (\<lambda>_. True)"
    by (induction calls)
      (simp_all add: run_relation.holds_ok [OF assms(1)] run_relation.safe_bind [OF assms(1)] assms(2))
  moreover have "run_relation.holds R f g w (run_parallel n ex mc calls) (\<lambda>_. True)"
    unfolding run_parallel_def by (rule run_relation.safe_run_queued [OF assms])
  ultimately show ?thesis by (simp add: run_regular_def)
qed

lemma counted_outcome:
  assumes "run_relation.holds counted False wt w m (\<lambda>_. True)"
  shows "m w \<noteq> OutOfFuel \<and> (\<not> wt \<longrightarrow> (\<exists>r v. m w = Returned (r, v)))"
proof -
  have "run_relation.works counted False wt w m (\<lambda>_. True)"
    using assms unfolding run_relation.holds_def [OF counted_relation]
    by (rule allE [of _ w]) (simp add: counted_def)
  then show ?thesis
    unfolding run_relation.works_def [OF counted_relation] by (auto split: outcome.splits)
qed

section \<open>A sample machine\<close>

text \<open>Tasks compile to themselves, commands succeed and nothing is restored.\<close>

definition sample_machine :: "unit machine" where
  "sample_machine = \<lparr>mc_reader = sample_reader, mc_os = ''linux'', mc_arch = ''x86_64'',
     mc_is_terminal = False, mc_env = (\<lambda>_. None), mc_process_env = [],
     mc_compile = (\<lambda>orig c sh dk x. (Inr orig, dk, x)),
     mc_resolve = (\<lambda>c orig t sh dk x. (Inr t, dk, x)),
     mc_finalize = (\<lambda>orig t h sh. Inr t),
     mc_render_deferred = (\<lambda>t xc cm. (c_cmd cm, c_if cm, c_task cm, c_vars cm)),
     mc_shell = (\<lambda>sc dk x. ((if sc_command sc = ''false'' then Inl (NonZeroExit 1) else Inr (), False), dk, x)),
     mc_condition_layers = Some, mc_policy = (\<lambda>t dk x. (Inr None, dk, x)),
     mc_remove_tmp = (\<lambda>d dk x. ((), dk, x)), mc_mkdir = (\<lambda>d dk x. (Inr (), dk, x)),
     mc_confirm = (\<lambda>m dk x. (True, dk, x)), mc_prompt = (\<lambda>n vs dk x. (Inl PromptCancelled, dk, x)),
     mc_parse_url = (\<lambda>_. None), mc_locker = (\<lambda>_. None),
     mc_remote_lock = (\<lambda>l n dk x. (Inr 0, dk, x)), mc_file_lock = (\<lambda>d n dk x. (Inr 0, dk, x)),
     mc_is_lost = (\<lambda>g dk x. (False, dk, x)), mc_unlock = (\<lambda>g dk x. ((), dk, x)),
     mc_restore = (\<lambda>u t v dk x. (Inr None, dk, x)), mc_commit = (\<lambda>dk x. (Committed, dk, x)),
     mc_undo = (\<lambda>dk x. (Inr (), dk, x)), mc_save = (\<lambda>u t v r dk x. ((), dk, x))\<rparr>"

definition start_world :: "unit world" where
  "start_world = \<lparr>w_disk = sample_disk, w_out = (), w_task_call_count = (\<lambda>_. 0), w_run_once = (\<lambda>_. None),
     w_prompted_vars = None, w_trace = []\<rparr>"

lemma sample_keeps_names: "keeps_names sample_machine"
  by (simp add: keeps_names_def sample_machine_def)

section \<open>Properties\<close>

text \<open>
  C2: a run ends. With fuel above a thousand calls per task of the Taskfile the calls of an
  invocation, in order or in parallel, never exhaust the model's recursion, whatever the
  dependencies, cyclic ones included; and when no task joins repeated calls (\<open>run: always\<close>)
  they return a result.
\<close>

theorem run_returns:
  assumes "ex_taskfile ex = Some tf" "im_ok (tf_tasks tf)" "\<not> ex_watch ex" "keeps_names mc"
    and "\<forall>m. 0 \<le> w_task_call_count w m" "1000 * card (task_names tf) < n"
  shows "run_regular n ex mc calls w \<noteq> OutOfFuel
    \<and> (always_runs tf ex mc \<longrightarrow> (\<exists>r v. run_regular n ex mc calls w = Returned (r, v)))"
proof -
  have b: "budget (task_names tf) w < n"
    using budget_initial [of w "task_names tf"] assms(5,6) by simp
  have safe: "run_relation.holds counted False wt w (run_regular n ex mc calls) (\<lambda>_. True)"
    if "wt \<or> always_runs tf ex mc" for wt
    by (rule safe_run_regular [OF counted_relation]) (rule run_task_enough [OF assms(1-4) that b])
  from counted_outcome [OF safe [of True]] counted_outcome [OF safe [of False]] show ?thesis by simp
qed

theorem run_returns_witness:
  "\<exists>r v. run_regular 3000 sample_executor sample_machine [call_new ''b''] start_world = Returned (r, v)"
proof -
  let ?tf = "default_taskfile\<lparr>tf_tasks := sample_tasks\<rparr>"
  have "card (task_names ?tf) \<le> 2"
    by (simp add: task_names_def sample_tasks_def card_insert_if)
  moreover have "always_runs ?tf sample_executor sample_machine"
    by (simp add: always_runs_def sample_machine_def sample_tasks_def task_hash_def default_task_def
        default_taskfile_def)
  moreover have "\<not> ex_watch sample_executor" by (simp add: sample_executor_def)
  ultimately show ?thesis
    using run_returns [where ex = sample_executor and tf = ?tf and mc = sample_machine and w = start_world
        and n = 3000 and calls = "[call_new ''b'']"] sample_tasks_ok sample_keeps_names
    by (simp add: start_world_def)
qed

end
