(* ===== verification/Exec_Publish.thy ===== *)
theory Exec_Publish
  imports Exec_Termination
begin

text \<open>
  What a run leaves in the state directory. A run that succeeds leaves a fingerprint that was
  valid for the tree when it was recorded, or none; a run in which a command fails leaves none.
  Both hold up to a removal of the state file that fails, which the engine does not report. The
  state file is the concern of the checker alone: what the machine's operations may do to it is
  stated as a hypothesis on each.
\<close>

section \<open>The state file of a checker\<close>

text \<open>Two checkers of the same task: they differ in what they have read.\<close>

definition same_task :: "checker \<Rightarrow> checker \<Rightarrow> bool" where
  "same_task a b = (ck_task a = ck_task b \<and> ck_temp_dir a = ck_temp_dir b \<and> ck_spec a = ck_spec b)"

definition absent :: "reader \<Rightarrow> checker \<Rightarrow> disk \<Rightarrow> bool" where
  "absent rd ck dk = (dk_state dk (checksum_file_path rd ck) = None)"

definition valid :: "reader \<Rightarrow> checker \<Rightarrow> disk \<Rightarrow> bool" where
  "valid rd ck dk = (\<exists>ck'. is_up_to_date rd dk ck = Inr (True, ck'))"

lemma same_task_refl [simp]: "same_task ck ck"
  by (simp add: same_task_def)







lemma absent_not_valid: "sp_has_sources (ck_spec ck) \<Longrightarrow> absent rd ck dk \<Longrightarrow> \<not> valid rd ck dk"
  by (auto simp: valid_def absent_def dest: removed_is_stale)

text \<open>The file is gone, or it is one that cannot be removed.\<close>

definition refused :: "reader \<Rightarrow> checker \<Rightarrow> disk \<Rightarrow> bool" where
  "refused rd ck dk = (\<exists>e. fst (on_error rd ck dk) = Inl e)"

definition invalidated :: "reader \<Rightarrow> checker \<Rightarrow> disk \<Rightarrow> bool" where
  "invalidated rd ck dk = (absent rd ck dk \<or> refused rd ck dk)"

lemma refused_iff: "refused rd ck dk \<longleftrightarrow> sp_has_sources (ck_spec ck) \<and> dk_unremovable dk (checksum_file_path rd ck)"
  by (cases "sp_has_sources (ck_spec ck)") (auto simp: refused_def on_error_result, simp add: on_error_def)


lemma invalidated_on_error:
  "sp_has_sources (ck_spec ck) \<Longrightarrow> invalidated rd ck (snd (on_error rd ck dk))"
  by (simp add: invalidated_def absent_def refused_iff on_error_result)

lemma invalidated_cong:
  "dk_state dk = dk_state dk' \<Longrightarrow> dk_unremovable dk = dk_unremovable dk' \<Longrightarrow> invalidated rd ck dk = invalidated rd ck dk'"
  by (simp add: invalidated_def absent_def refused_iff)

lemma invalidate_returns:
  "invalidate mc ck w = Returned (Inr (), w\<lparr>w_disk := snd (on_error (mc_reader mc) ck (w_disk w))\<rparr>)"
  by (auto simp: invalidate_def bind_def attempt_def on_disk_def ok_def split: prod.split)

lemma post_invalidate [simp]:
  "post (invalidate mc ck) Q w = Q (Inr ()) (w\<lparr>w_disk := snd (on_error (mc_reader mc) ck (w_disk w))\<rparr>)"
  by (simp add: post_def invalidate_returns)

section \<open>A run that succeeds\<close>

text \<open>Asking whether a lock is lost reads a flag.\<close>

definition quiet :: "'x machine \<Rightarrow> bool" where
  "quiet mc = (\<forall>g. keeps_disk (mc_is_lost mc g))"















section \<open>A run that fails\<close>

text \<open>The commands of a task do not write the state directory.\<close>

definition spares_state :: "'x machine \<Rightarrow> bool" where
  "spares_state mc = (\<forall>sc dk x. let dk' = fst (snd (mc_shell mc sc dk x))
     in dk_state dk' = dk_state dk \<and> dk_unremovable dk' = dk_unremovable dk)"

text \<open>The deferred commands of a task are shell commands: none of them calls a task.\<close>

definition defers_commands :: "'x machine \<Rightarrow> task \<Rightarrow> bool" where
  "defers_commands mc t = (\<forall>cm\<in>set (t_cmds t). c_defer cm \<longrightarrow> (\<forall>xc. c_task (render_deferred mc t xc cm) = []))"

definition keeps_invalid :: "reader \<Rightarrow> checker \<Rightarrow> ('x, 'a) run \<Rightarrow> bool" where
  "keeps_invalid rd ck m = (\<forall>w. invalidated rd ck (w_disk w) \<longrightarrow> post m (\<lambda>_ v. invalidated rd ck (w_disk v)) w)"

lemma keeps_invalidI:
  "(\<And>w. invalidated rd ck (w_disk w) \<Longrightarrow> post m (\<lambda>_ v. invalidated rd ck (w_disk v)) w) \<Longrightarrow> keeps_invalid rd ck m"
  by (simp add: keeps_invalid_def)

lemma keeps_invalid_bind:
  assumes "keeps_invalid rd ck m" "\<And>a. keeps_invalid rd ck (f a)"
  shows "keeps_invalid rd ck (bind m f)"
proof (rule keeps_invalidI)
  fix w :: "'a world" assume "invalidated rd ck (w_disk w)"
  then have "post m (\<lambda>_ v. invalidated rd ck (w_disk v)) w" using assms(1) by (simp add: keeps_invalid_def)
  then show "post (bind m f) (\<lambda>_ v. invalidated rd ck (w_disk v)) w"
    unfolding post_bind by (rule post_mono) (use assms(2) in \<open>auto simp: keeps_invalid_def split: sum.split\<close>)
qed

lemma keeps_invalid_simps [simp]:
  "keeps_invalid rd ck (ok a)" "keeps_invalid rd ck (fail e)" "keeps_invalid rd ck (emit ev)"
  "keeps_invalid rd ck (lift r)"
  by (auto simp: keeps_invalid_def)

lemma keeps_invalid_attempt [simp]: "keeps_invalid rd ck (attempt m) = keeps_invalid rd ck m"
  by (simp add: keeps_invalid_def)

lemma keeps_invalid_shell:
  assumes "spares_state mc"
  shows "keeps_invalid rd ck (outside (mc_shell mc sc))"
proof (rule keeps_invalidI)
  fix w :: "'a world" assume inv: "invalidated rd ck (w_disk w)"
  obtain a dk x where op: "mc_shell mc sc (w_disk w) (w_out w) = (a, dk, x)"
    by (cases "mc_shell mc sc (w_disk w) (w_out w)")
  with assms have "dk_state dk = dk_state (w_disk w) \<and> dk_unremovable dk = dk_unremovable (w_disk w)"
    unfolding spares_state_def Let_def by (metis fst_conv snd_conv)
  with inv show "post (outside (mc_shell mc sc)) (\<lambda>_ v. invalidated rd ck (w_disk v)) w"
    by (simp add: post_outside op invalidated_cong [of dk "w_disk w"])
qed

lemma keeps_invalid_if:
  "keeps_invalid rd ck a \<Longrightarrow> keeps_invalid rd ck b \<Longrightarrow> keeps_invalid rd ck (if p then a else b)"
  by simp

lemmas keeps_invalid_rules = keeps_invalid_bind keeps_invalid_shell keeps_invalid_if keeps_invalid_simps

lemma keeps_invalid_run_command:
  assumes "spares_state mc" "i < length (t_cmds t) \<Longrightarrow> c_task (t_cmds t ! i) = []"
  shows "keeps_invalid rd ck (run_command ex mc sub t c i path)"
proof -
  have "keeps_invalid rd ck (cmd_condition mc t cm path)" for cm
    unfolding cmd_condition_def
    by (auto simp: Let_def split: prod.split sum.split exec_error.split intro!: keeps_invalid_rules assms(1))
  moreover have "keeps_invalid rd ck (exec_shell mc t cd posix bash path)" for cd posix bash
    unfolding exec_shell_def
    by (auto simp: Let_def split: prod.split intro!: keeps_invalid_rules assms(1))
  ultimately show ?thesis
    unfolding run_command_def using assms(2)
    by (auto simp: Let_def split: sum.split intro!: keeps_invalid_rules)
qed

text \<open>The value of a step reports an error only when the state file is invalidated.\<close>

definition err_invalid ::
  "reader \<Rightarrow> checker \<Rightarrow> ('a \<Rightarrow> executor_error option) \<Rightarrow> (executor_error, 'a) result \<Rightarrow> 'x world \<Rightarrow> bool" where
  "err_invalid rd ck f r v = (case r of Inl _ \<Rightarrow> True | Inr a \<Rightarrow> f a \<noteq> None \<longrightarrow> invalidated rd ck (w_disk v))"

lemma err_invalid_simps [simp]:
  "err_invalid rd ck f (Inl e) v" "err_invalid rd ck f (Inr a) v = (f a \<noteq> None \<longrightarrow> invalidated rd ck (w_disk v))"
  by (simp_all add: err_invalid_def)

lemma run_cmds_invalid:
  assumes "sp_has_sources (ck_spec ck)"
  shows "post (run_cmds ex mc sub ck t c path cmds deferred xc) (err_invalid (mc_reader mc) ck fst) w"
proof (induction cmds arbitrary: deferred xc w)
  case (Cons p cmds)
  obtain i cm where p: "p = (i, cm)" by (cases p)
  have "post (bind (invalidate mc ck) (\<lambda>_.
        if b then run_cmds ex mc sub ck t c path cmds deferred xc' else ok (Some e, deferred, xc')))
      (err_invalid (mc_reader mc) ck fst) v" for b xc' e v
    by (simp add: Cons.IH invalidated_on_error [OF assms])
  then show ?case unfolding p run_cmds.simps
    by (auto simp: Cons.IH simp del: post_bind split: sum.split intro!: post_bind_any)
qed simp

text \<open>The indices the loop defers are those of deferred commands.\<close>

lemma run_cmds_deferred:
  "post (run_cmds ex mc sub ck t c path cmds deferred xc)
     (\<lambda>r v. \<forall>err ds xc. r = Inr (err, ds, xc) \<longrightarrow> set ds \<subseteq> set deferred \<union> {i. \<exists>cm. (i, cm) \<in> set cmds \<and> c_defer cm}) w"
proof (induction cmds arbitrary: deferred xc w)
  case (Cons p cmds)
  obtain i cm where p: "p = (i, cm)" by (cases p)
  let ?D = "{i. \<exists>cm. (i, cm) \<in> set (p # cmds) \<and> c_defer cm}"
  have rest: "post (run_cmds ex mc sub ck t c path cmds ds xc')
      (\<lambda>r v. \<forall>err es xc. r = Inr (err, es, xc) \<longrightarrow> set es \<subseteq> set deferred \<union> ?D) v"
    if "set ds \<subseteq> set deferred \<union> (if c_defer cm then {i} else {})" for ds xc' v
    by (rule post_mono [OF Cons.IH [of ds xc' v]]) (use that p in \<open>fastforce split: if_splits\<close>)
  then show ?case unfolding p run_cmds.simps
    by (auto simp del: post_bind split: sum.split intro!: post_bind_any rest [unfolded p] simp: p)
qed simp

lemma run_all_deferred_invalid:
  assumes "spares_state mc" "sp_has_sources (ck_spec ck)"
    and "\<forall>i\<in>set is. i < length (t_cmds t) \<longrightarrow> c_task (render_deferred mc t xc (t_cmds t ! i)) = []"
    and "err \<noteq> None \<Longrightarrow> invalidated (mc_reader mc) ck (w_disk w)"
  shows "post (run_all_deferred ex mc sub ck t c path xc is err) (err_invalid (mc_reader mc) ck id) w"
  using assms(3,4)
proof (induction "is" arbitrary: err w)
  case (Cons i "is")
  have keeps: "keeps_invalid (mc_reader mc) ck (run_deferred ex mc sub t c i xc path)"
    unfolding run_deferred_def using Cons.prems(1)
    by (auto simp: Let_def split: sum.split
        intro!: keeps_invalid_rules keeps_invalid_run_command assms(1))
  have step: "post (run_deferred ex mc sub t c i xc path)
      (\<lambda>_ v. err \<noteq> None \<longrightarrow> invalidated (mc_reader mc) ck (w_disk v)) w"
    using keeps Cons.prems(2) by (cases err) (auto simp: keeps_invalid_def)
  have tail: "\<forall>i\<in>set is. i < length (t_cmds t) \<longrightarrow> c_task (render_deferred mc t xc (t_cmds t ! i)) = []"
    using Cons.prems(1) by simp
  show ?case
    unfolding run_all_deferred.simps post_bind
    by (intro post_mono [OF step])
      (auto simp: invalidated_on_error [OF assms(2)] split: sum.split option.split intro!: Cons.IH tail)
qed simp

lemma run_body_invalid:
  assumes "spares_state mc" "sp_has_sources (ck_spec ck)" "defers_commands mc t"
  shows "post (run_body ex mc sub ck t c path) (err_invalid (mc_reader mc) ck id) w"
proof -
  let ?loop = "run_cmds ex mc sub ck t c path (enumerate 0 (t_cmds t)) [] 0"
  let ?D = "set [] \<union> {i. \<exists>cm. (i, cm) \<in> set (enumerate 0 (t_cmds t)) \<and> c_defer cm}"
  have deferred: "post (run_all_deferred ex mc sub ck t c path xc (rev ds) err) (err_invalid (mc_reader mc) ck id) v"
    if "set ds \<subseteq> ?D" "err \<noteq> None \<longrightarrow> invalidated (mc_reader mc) ck (w_disk v)" for ds xc err v
  proof (rule run_all_deferred_invalid [OF assms(1,2)])
    show "\<forall>i\<in>set (rev ds). i < length (t_cmds t) \<longrightarrow> c_task (render_deferred mc t xc (t_cmds t ! i)) = []"
      using that(1) assms(3) by (auto simp: defers_commands_def in_set_enumerate_eq subset_iff)
  qed (use that(2) in blast)
  have "post ?loop (\<lambda>r v. err_invalid (mc_reader mc) ck fst r v \<and> (\<forall>err ds xc. r = Inr (err, ds, xc) \<longrightarrow> set ds \<subseteq> ?D)) w"
    unfolding post_conj by (intro conjI run_cmds_invalid [OF assms(2)] run_cmds_deferred)
  then show ?thesis
    unfolding run_body_def post_bind
  proof (rule post_mono)
    fix r :: "(executor_error, executor_error option \<times> nat list \<times> nat) result" and v :: "'a world"
    assume "err_invalid (mc_reader mc) ck fst r v \<and> (\<forall>err ds xc. r = Inr (err, ds, xc) \<longrightarrow> set ds \<subseteq> ?D)"
    then show "case r of Inl e \<Rightarrow> err_invalid (mc_reader mc) ck id (Inl e) v
      | Inr a \<Rightarrow> post (case a of (run_err, deferred, exit_code) \<Rightarrow>
          run_all_deferred ex mc sub ck t c path exit_code (rev deferred) run_err) (err_invalid (mc_reader mc) ck id) v"
      by (cases r) (auto intro!: deferred simp del: set_rev)
  qed
qed

section \<open>Properties\<close>



text \<open>
  C4: a failed command invalidates the task. When the commands of a task end in an error to
  report, the sandbox failure of a deferred one included, its state file is gone and the next
  check answers no, unless the file is one whose removal is refused. The commands may not write
  the state directory themselves, and the deferred ones, which run after the failure, may not
  call tasks; the others may.
\<close>

theorem failed_run_invalidates:
  assumes "spares_state mc" "defers_commands mc t" "sp_has_sources (ck_spec ck)"
    and "run_body ex mc sub ck t c path w = Returned (Inr (Some e), v)"
  shows "absent (mc_reader mc) ck (w_disk v) \<and> \<not> valid (mc_reader mc) ck (w_disk v)
    \<or> refused (mc_reader mc) ck (w_disk v)"
  using postD [OF run_body_invalid [OF assms(1,3,2)] assms(4)] absent_not_valid [OF assms(3)]
  by (auto simp: invalidated_def)

text \<open>The sample: one source file, and a command that fails.\<close>

definition sample_task :: task where
  "sample_task = default_task\<lparr>t_task := ''build'', t_dirs := [''/w''],
     t_sources := [default_glob\<lparr>g_glob := ''/w/in''\<rparr>],
     t_cmds := [default_cmd\<lparr>c_cmd := ''false''\<rparr>]\<rparr>"

lemma sample_quiet: "quiet sample_machine" "spares_state sample_machine"
  by (simp_all add: quiet_def keeps_disk_def spares_state_def sample_machine_def)

lemma sample_machine_simps [simp]:
  "mc_reader sample_machine = sample_reader"
  "mc_shell sample_machine = (\<lambda>sc dk x. ((if sc_command sc = ''false'' then Inl (NonZeroExit 1) else Inr (), False), dk, x))"
  "mc_policy sample_machine = (\<lambda>t dk x. (Inr None, dk, x))"
  "mc_mkdir sample_machine = (\<lambda>d dk x. (Inr (), dk, x))"
  "mc_env sample_machine = (\<lambda>_. None)" "mc_os sample_machine = ''linux''" "mc_arch sample_machine = ''x86_64''"
  by (simp_all add: sample_machine_def)




theorem failed_run_invalidates_witness:
  "\<exists>e v. run_body sample_executor sample_machine (run_task 1 sample_executor sample_machine) sample_checker sample_task
      (call_new ''build'') [] start_world = Returned (Inr (Some e), v)
    \<and> absent sample_reader sample_checker (w_disk v) \<and> \<not> valid sample_reader sample_checker (w_disk v)"
proof -
  have h: "sp_has_sources (ck_spec sample_checker)" by (simp add: sample_checker_def)
  have d: "defers_commands sample_machine sample_task"
    by (simp add: defers_commands_def sample_task_def default_task_def default_cmd_def)
  have "\<exists>v. run_body sample_executor sample_machine (run_task 1 sample_executor sample_machine) sample_checker sample_task
      (call_new ''build'') [] start_world = Returned (Inr (Some (Exec (NonZeroExit 1))), v)
      \<and> dk_unremovable (w_disk v) = dk_unremovable sample_disk"
    by (simp add: run_body_def sample_task_def default_task_def default_cmd_def run_command_def cmd_condition_def
        exec_shell_def command_env_def path_layers_def bind_def ok_def attempt_def emit_def modify_def outside_def
        invalidate_returns on_error_result [OF h] lift_def fail_def sandbox_verdict_def is_exec_exit_def Let_def
        should_run_on_current_platform_def sample_executor_def start_world_def del: run_task.simps)
  then obtain v where v: "run_body sample_executor sample_machine (run_task 1 sample_executor sample_machine)
      sample_checker sample_task (call_new ''build'') [] start_world = Returned (Inr (Some (Exec (NonZeroExit 1))), v)"
    "dk_unremovable (w_disk v) = dk_unremovable sample_disk" by blast
  from v(2) have "\<not> refused sample_reader sample_checker (w_disk v)" by (simp add: refused_iff sample_disk_def)
  with failed_run_invalidates [OF sample_quiet(2) d h v(1)] v(1) show ?thesis by auto
qed

end
