(* ===== verification/Exec_Order.thy ===== *)
theory Exec_Order
  imports Exec_Publish
begin

text \<open>
  In which order a run does things, and what its callers share: the commands of a task before
  its deferred ones in reverse, the queue joined as \<open>join_queued\<close> joins it, one execution per
  run-once key, and what becomes of an error that several callers share.
\<close>

section \<open>The order of commands\<close>

text \<open>A task of plain shell commands: no condition, no call, every command for this platform.\<close>

definition plain_cmd :: "'x machine \<Rightarrow> cmd \<Rightarrow> bool" where
  "plain_cmd mc cm = (trim (c_if cm) = [] \<and> c_task cm = [] \<and> c_cmd cm \<noteq> []
     \<and> should_run_on_current_platform (mc_os mc) (mc_arch mc) (c_platforms cm))"

definition plain_task :: "'x machine \<Rightarrow> task \<Rightarrow> bool" where
  "plain_task mc t = (\<forall>cm\<in>set (t_cmds t). plain_cmd mc cm
     \<and> (c_defer cm \<longrightarrow> (\<forall>xc. plain_cmd mc (render_deferred mc t xc cm))))"

fun event_command :: "event \<Rightarrow> str" where
  "event_command (Command n sc res dn) = sc_command sc"
| "event_command (Condition n sc) = sc_command sc"

text \<open>
  What a command that ran reports: a denial of its sandbox before the status of the shell. It
  ends the loop unless it is an exit status that the command or the task ignores.
\<close>

fun event_failure :: "task \<Rightarrow> event \<Rightarrow> executor_error option" where
  "event_failure t (Command n sc res dn) =
     (if dn then Some (SandboxDenied (task_name t) DeniedCommand)
      else case res of Inl e \<Rightarrow> Some (Exec e) | Inr _ \<Rightarrow> None)"
| "event_failure t (Condition n sc) = None"

definition halts :: "task \<Rightarrow> cmd \<Rightarrow> event \<Rightarrow> bool" where
  "halts t cm ev = (case event_failure t ev of
     None \<Rightarrow> False
   | Some e \<Rightarrow> \<not> (is_exec_exit e \<and> (c_ignore_error cm \<or> t_ignore_error t)))"

lemma run_plain_command:
  assumes "\<not> ex_dry ex" "i < length (t_cmds t)" "plain_cmd mc (t_cmds t ! i)"
  shows "post (run_command ex mc sub t c i path)
    (\<lambda>r v. \<exists>ev. w_trace v = w_trace w @ [ev] \<and> event_command ev = c_cmd (t_cmds t ! i)
       \<and> r = (case event_failure t ev of
            None \<Rightarrow> Inr ()
          | Some e \<Rightarrow> if is_exec_exit e \<and> c_ignore_error (t_cmds t ! i) then Inr () else Inl e)) w"
  using assms
  by (auto simp: run_command_def Let_def cmd_condition_def plain_cmd_def exec_shell_def post_outside
      sandbox_verdict_def is_exec_exit_def split: prod.split sum.split)

text \<open>
  The command loop, as a relation between the commands of the task, the events of a run, the
  error the loop ends with and the deferred commands it passed.
\<close>

fun loop_spec :: "task \<Rightarrow> cmd list \<Rightarrow> event list \<Rightarrow> executor_error option \<Rightarrow> cmd list \<Rightarrow> bool" where
  "loop_spec t [] evs err ds = (evs = [] \<and> err = None \<and> ds = [])"
| "loop_spec t (cm # cms) evs err ds =
     (if c_defer cm then ds \<noteq> [] \<and> hd ds = cm \<and> loop_spec t cms evs err (tl ds)
      else evs \<noteq> [] \<and> event_command (hd evs) = c_cmd cm
        \<and> (if halts t cm (hd evs) then tl evs = [] \<and> err = event_failure t (hd evs) \<and> ds = []
           else loop_spec t cms (tl evs) err ds))"

definition went ::
  "task \<Rightarrow> (nat \<times> cmd) list \<Rightarrow> nat list \<Rightarrow> 'x world
    \<Rightarrow> (executor_error, executor_error option \<times> nat list \<times> nat) result \<Rightarrow> 'x world \<Rightarrow> bool" where
  "went t cmds deferred w r v = (\<exists>evs err is xc. r = Inr (err, deferred @ is, xc) \<and> w_trace v = w_trace w @ evs
     \<and> loop_spec t (map snd cmds) evs err (map (\<lambda>i. t_cmds t ! i) is)
     \<and> (\<forall>i\<in>set is. i < length (t_cmds t) \<and> c_defer (t_cmds t ! i)))"

lemma went_Nil: "went t [] deferred v (Inr (None, deferred, xc)) v"
  by (auto simp: went_def)

lemma went_defer:
  assumes "went t cmds (deferred @ [i]) w r v" "c_defer cm" "i < length (t_cmds t)" "cm = t_cmds t ! i"
  shows "went t ((i, cm) # cmds) deferred w r v"
proof -
  from assms(1) obtain evs err "is" xc where q: "r = Inr (err, deferred @ i # is, xc)" "w_trace v = w_trace w @ evs"
    "loop_spec t (map snd cmds) evs err (map (\<lambda>i. t_cmds t ! i) is)"
    "\<forall>i\<in>set is. i < length (t_cmds t) \<and> c_defer (t_cmds t ! i)" by (auto simp: went_def)
  show ?thesis unfolding went_def
    by (rule exI [of _ evs], rule exI [of _ err], rule exI [of _ "i # is"], rule exI [of _ xc])
      (use q assms(2-4) in simp)
qed

lemma went_on:
  assumes "went t cmds deferred u r v" "\<not> c_defer cm"
    and "w_trace u = w_trace w @ [ev]" "event_command ev = c_cmd cm" "\<not> halts t cm ev"
  shows "went t ((i, cm) # cmds) deferred w r v"
proof -
  from assms(1) obtain evs err "is" xc where q: "r = Inr (err, deferred @ is, xc)" "w_trace v = w_trace u @ evs"
    "loop_spec t (map snd cmds) evs err (map (\<lambda>i. t_cmds t ! i) is)"
    "\<forall>i\<in>set is. i < length (t_cmds t) \<and> c_defer (t_cmds t ! i)" by (auto simp: went_def)
  show ?thesis unfolding went_def
    by (rule exI [of _ "ev # evs"], rule exI [of _ err], rule exI [of _ "is"], rule exI [of _ xc])
      (use q assms(2-5) in simp)
qed

lemma went_stop:
  assumes "\<not> c_defer cm" "w_trace u = w_trace w @ [ev]" "event_command ev = c_cmd cm" "halts t cm ev"
    and "event_failure t ev = Some e"
  shows "went t ((i, cm) # cmds) deferred w (Inr (Some e, deferred, xc)) u"
  unfolding went_def
  by (rule exI [of _ "[ev]"], rule exI [of _ "Some e"], rule exI [of _ "[]"], rule exI [of _ xc])
    (use assms in simp)

lemma run_plain_cmds:
  assumes "\<not> ex_dry ex" "plain_task mc t" "\<forall>(i, cm)\<in>set cmds. i < length (t_cmds t) \<and> cm = t_cmds t ! i"
  shows "post (run_cmds ex mc sub ck t c path cmds deferred xc) (went t cmds deferred w) w"
  using assms(3)
proof (induction cmds arbitrary: deferred xc w)
  case (Cons p cmds)
  obtain i cm where p: "p = (i, cm)" by (cases p)
  with Cons.prems have i: "i < length (t_cmds t)" "cm = t_cmds t ! i" by auto
  have tail: "\<forall>(i, cm)\<in>set cmds. i < length (t_cmds t) \<and> cm = t_cmds t ! i" using Cons.prems by simp
  show ?case
  proof (cases "c_defer cm")
    case True
    then show ?thesis unfolding p
      by (auto intro: post_mono [OF Cons.IH [OF tail]] went_defer [OF _ True i])
  next
    case False
    have plain: "plain_cmd mc (t_cmds t ! i)" using assms(2) i by (auto simp: plain_task_def)
    have rest: "post (run_cmds ex mc sub ck t c path cmds deferred xc') (went t (p # cmds) deferred w) u"
      if u: "w_trace u = w_trace w @ [ev]" "event_command ev = c_cmd cm" "\<not> halts t cm ev" for u xc' ev
      unfolding p by (rule post_mono [OF Cons.IH [OF tail]]) (rule went_on [OF _ False u])
    show ?thesis unfolding p run_cmds.simps if_not_P [OF False] post_bind post_attempt
    proof (rule post_mono [OF run_plain_command [OF assms(1) i(1) plain, of sub c path w]], elim exE conjE)
      fix r and v :: "'a world" and ev
      assume v: "w_trace v = w_trace w @ [ev]" "event_command ev = c_cmd (t_cmds t ! i)"
        and r: "r = (case event_failure t ev of None \<Rightarrow> Inr ()
          | Some e \<Rightarrow> if is_exec_exit e \<and> c_ignore_error (t_cmds t ! i) then Inr () else Inl e)"
      have disk: "w_trace (v\<lparr>w_disk := dk\<rparr>) = w_trace w @ [ev]" for dk using v(1) by simp
      have cmd: "event_command ev = c_cmd cm" using v(2) i(2) by simp
      show "case Inr r of Inl e \<Rightarrow> went t ((i, cm) # cmds) deferred w (Inl e) v
        | Inr a \<Rightarrow> post (case a of
            Inl e \<Rightarrow> bind (invalidate mc ck) (\<lambda>_. if is_exec_exit e \<and> (c_ignore_error cm \<or> t_ignore_error t)
              then run_cmds ex mc sub ck t c path cmds deferred (exit_code_of e xc)
              else ok (Some e, deferred, exit_code_of e xc))
          | Inr _ \<Rightarrow> run_cmds ex mc sub ck t c path cmds deferred xc) (went t ((i, cm) # cmds) deferred w) v"
      proof (cases "event_failure t ev")
        case None
        with r rest [OF v(1) cmd] p show ?thesis by (simp add: halts_def)
      next
        case (Some e)
        have "went t ((i, cm) # cmds) deferred w (Inr (Some e, deferred, xc')) (v\<lparr>w_disk := dk\<rparr>)" if "halts t cm ev" for dk xc'
          by (rule went_stop [OF False disk cmd that Some])
        with Some r rest [OF v(1) cmd] rest [OF disk cmd] p i(2) show ?thesis
          by (auto simp: halts_def split: if_splits)
      qed
    qed
  qed
qed (simp add: went_Nil)

lemma run_plain_deferred:
  assumes "\<not> ex_dry ex" "plain_task mc t" "\<forall>i\<in>set is. i < length (t_cmds t) \<and> c_defer (t_cmds t ! i)"
  shows "post (run_all_deferred ex mc sub ck t c path xc is err)
    (\<lambda>r v. \<exists>evs. w_trace v = w_trace w @ evs
       \<and> map event_command evs = map (\<lambda>i. c_cmd (render_deferred mc t xc (t_cmds t ! i))) is) w"
  using assms(3)
proof (induction "is" arbitrary: err w)
  case (Cons i "is")
  then have i: "i < length (t_cmds t)" "c_defer (t_cmds t ! i)" by simp_all
  let ?cm = "render_deferred mc t xc (t_cmds t ! i)"
  have plain: "plain_cmd mc ?cm" using assms(2) i by (auto simp: plain_task_def)
  have step: "post (run_deferred ex mc sub t c i xc path)
      (\<lambda>r v. (\<exists>a. r = Inr a) \<and> (\<exists>ev. w_trace v = w_trace w @ [ev] \<and> event_command ev = c_cmd ?cm)) w"
    unfolding run_deferred_def using i
    by (auto simp: Let_def split: sum.split
        intro!: post_mono [OF run_plain_command [OF assms(1), where t = "t\<lparr>t_cmds := (t_cmds t)[i := ?cm]\<rparr>"]] plain)
  have rest: "post (run_all_deferred ex mc sub ck t c path xc is err')
      (\<lambda>r v. \<exists>evs. w_trace v = w_trace w @ evs \<and> map event_command evs
         = c_cmd ?cm # map (\<lambda>i. c_cmd (render_deferred mc t xc (t_cmds t ! i))) is) u"
    if "w_trace u = w_trace w @ [ev]" "event_command ev = c_cmd ?cm" for err' u ev
    by (rule post_mono [OF Cons.IH [of err' u]]) (use Cons.prems that in \<open>auto intro: exI [of _ "ev # _"]\<close>)
  show ?case unfolding run_all_deferred.simps post_bind
    by (rule post_mono [OF step]) (use rest in \<open>auto split: sum.split option.split\<close>)
qed simp

lemma run_all_deferred_err:
  "post (run_all_deferred ex mc sub ck t c path xc is err)
     (\<lambda>r v. \<exists>err'. r = Inr err' \<and> (err \<noteq> None \<longrightarrow> err' = err)
        \<and> (err = None \<longrightarrow> (\<forall>e. err' = Some e \<longrightarrow> is_sandbox_failure e))) w"
proof (induction "is" arbitrary: err w)
  case (Cons i "is")
  have step: "post (run_deferred ex mc sub t c i xc path)
      (\<lambda>r v. \<exists>a. r = Inr a \<and> (\<forall>e. a = Some e \<longrightarrow> is_sandbox_failure e)) u" for u
  proof (cases "i < length (t_cmds t)")
    case True
    then show ?thesis
      unfolding run_deferred_def Let_def
      by (simp del: post_bind) (unfold post_bind post_attempt, rule post_mono [OF post_True], simp split: sum.split)
  qed (simp add: run_deferred_def)
  show ?case unfolding run_all_deferred.simps post_bind
    by (rule post_mono [OF step]) (auto split: sum.split option.split intro: post_mono [OF Cons.IH])
qed simp

text \<open>
  The loop written out: it passed the commands \<open>pre\<close>, of which it ran those that are not
  deferred and none halted it, then at most one command \<open>stop\<close> that did; the rest never ran.
\<close>

abbreviation ran_cmd :: "cmd \<Rightarrow> event \<Rightarrow> bool" where
  "ran_cmd cm ev \<equiv> event_command ev = c_cmd cm"

definition looped :: "task \<Rightarrow> cmd list \<Rightarrow> event list \<Rightarrow> executor_error option \<Rightarrow> cmd list \<Rightarrow> bool" where
  "looped t cms evs err ds = (\<exists>pre stop rest body halt. cms = pre @ stop @ rest \<and> evs = body @ halt
     \<and> length stop \<le> 1 \<and> (stop = [] \<longrightarrow> rest = [] \<and> err = None) \<and> ds = filter c_defer pre
     \<and> list_all2 (\<lambda>cm ev. ran_cmd cm ev \<and> \<not> halts t cm ev) (filter (\<lambda>cm. \<not> c_defer cm) pre) body
     \<and> list_all2 (\<lambda>cm ev. \<not> c_defer cm \<and> ran_cmd cm ev \<and> halts t cm ev \<and> err = event_failure t ev) stop halt)"

lemma loop_spec_looped: "loop_spec t cms evs err ds \<Longrightarrow> looped t cms evs err ds"
proof (induction cms arbitrary: evs ds)
  case (Cons cm cms)
  show ?case
  proof (cases "\<not> c_defer cm \<and> halts t cm (hd evs)")
    case True
    with Cons.prems obtain ev where "evs = [ev]" "ran_cmd cm ev" "err = event_failure t ev" "ds = []" "halts t cm ev"
      by (cases evs) auto
    with True show ?thesis unfolding looped_def
      by (intro exI [of _ "[]"] exI [of _ "[cm]"] exI [of _ cms] exI [of _ "[]"] exI [of _ "[ev]"]) simp
  next
    case False
    define evs' where "evs' = (if c_defer cm then evs else tl evs)"
    define ds' where "ds' = (if c_defer cm then tl ds else ds)"
    from Cons.prems False have "loop_spec t cms evs' err ds'"
      and head: "c_defer cm \<Longrightarrow> ds = cm # ds'" "\<not> c_defer cm \<Longrightarrow> \<exists>ev. evs = ev # evs' \<and> ran_cmd cm ev \<and> \<not> halts t cm ev"
      unfolding evs'_def ds'_def by (auto split: if_splits simp: neq_Nil_conv)
    from Cons.IH [OF this(1)] obtain pre stop rest body halt where *: "cms = pre @ stop @ rest" "evs' = body @ halt"
      "length stop \<le> 1" "stop = [] \<longrightarrow> rest = [] \<and> err = None" "ds' = filter c_defer pre"
      "list_all2 (\<lambda>cm ev. ran_cmd cm ev \<and> \<not> halts t cm ev) (filter (\<lambda>cm. \<not> c_defer cm) pre) body"
      "list_all2 (\<lambda>cm ev. \<not> c_defer cm \<and> ran_cmd cm ev \<and> halts t cm ev \<and> err = event_failure t ev) stop halt"
      unfolding looped_def by blast
    show ?thesis unfolding looped_def
      by (rule exI [of _ "cm # pre"], rule exI [of _ stop], rule exI [of _ rest],
          rule exI [of _ "if c_defer cm then body else hd evs # body"], rule exI [of _ halt])
        (use * head in \<open>auto simp: evs'_def ds'_def split: if_splits\<close>)
  qed
qed (simp add: looped_def)

text \<open>The events of a body: those of the loop, then those of the deferred commands it passed, in reverse.\<close>

definition in_order :: "'x machine \<Rightarrow> task \<Rightarrow> event list \<Rightarrow> executor_error option \<Rightarrow> bool" where
  "in_order mc t evs err = (\<exists>body after ds loop_err xc. evs = body @ after \<and> loop_spec t (t_cmds t) body loop_err ds
     \<and> map event_command after = rev (map (\<lambda>cm. c_cmd (render_deferred mc t xc cm)) ds)
     \<and> (loop_err \<noteq> None \<longrightarrow> err = loop_err)
     \<and> (loop_err = None \<longrightarrow> (\<forall>e. err = Some e \<longrightarrow> is_sandbox_failure e)))"

lemma run_body_order:
  assumes "\<not> ex_dry ex" "plain_task mc t"
  shows "post (run_body ex mc sub ck t c path)
    (\<lambda>r v. \<exists>err evs. r = Inr err \<and> w_trace v = w_trace w @ evs \<and> in_order mc t evs err) w"
proof -
  let ?cmds = "enumerate 0 (t_cmds t)"
  let ?Q = "\<lambda>r v. \<exists>err evs. r = Inr err \<and> w_trace v = w_trace w @ evs \<and> in_order mc t evs err"
  have idx: "\<forall>(i, cm)\<in>set ?cmds. i < length (t_cmds t) \<and> cm = t_cmds t ! i"
    by (auto simp: in_set_enumerate_eq)
  have deferred: "post (run_all_deferred ex mc sub ck t c path xc (rev is) err) ?Q u"
    if u: "w_trace u = w_trace w @ body" "loop_spec t (t_cmds t) body err (map (\<lambda>i. t_cmds t ! i) is)"
      "\<forall>i\<in>set is. i < length (t_cmds t) \<and> c_defer (t_cmds t ! i)" for "is" err xc u body
  proof -
    have "\<forall>i\<in>set (rev is). i < length (t_cmds t) \<and> c_defer (t_cmds t ! i)" using u(3) by simp
    from run_plain_deferred [OF assms this, of sub ck c path xc err u] run_all_deferred_err
      [of ex mc sub ck t c path xc "rev is" err u]
    have "post (run_all_deferred ex mc sub ck t c path xc (rev is) err)
        (\<lambda>r v. (\<exists>evs. w_trace v = w_trace u @ evs
            \<and> map event_command evs = map (\<lambda>i. c_cmd (render_deferred mc t xc (t_cmds t ! i))) (rev is))
          \<and> (\<exists>err'. r = Inr err' \<and> (err \<noteq> None \<longrightarrow> err' = err)
            \<and> (err = None \<longrightarrow> (\<forall>e. err' = Some e \<longrightarrow> is_sandbox_failure e)))) u"
      unfolding post_conj by blast
    then show ?thesis
    proof (rule post_mono, elim exE conjE)
      fix r and v :: "'a world" and evs err'
      assume v: "w_trace v = w_trace u @ evs"
        "map event_command evs = map (\<lambda>i. c_cmd (render_deferred mc t xc (t_cmds t ! i))) (rev is)"
        and r: "r = Inr err'" "err \<noteq> None \<longrightarrow> err' = err"
        "err = None \<longrightarrow> (\<forall>e. err' = Some e \<longrightarrow> is_sandbox_failure e)"
      have "in_order mc t (body @ evs) err'"
        unfolding in_order_def
        by (intro exI [of _ body] exI [of _ evs] exI [of _ "map (\<lambda>i. t_cmds t ! i) is"] exI [of _ err] exI [of _ xc])
          (use u v r in \<open>simp add: rev_map comp_def\<close>)
      with u(1) v(1) r(1) show "?Q r v" by auto
    qed
  qed
  show ?thesis
    unfolding run_body_def post_bind
    by (rule post_mono [OF run_plain_cmds [OF assms idx]]) (auto simp: went_def dest: deferred)
qed

section \<open>Joining the queue\<close>

text \<open>
  The polls of the modelled schedule: at poll \<open>k\<close> the task \<open>k\<close> of the queue has finished, the later
  ones have not started.
\<close>

definition one_by_one :: "nat \<Rightarrow> (executor_error, unit) result list \<Rightarrow> (nat \<Rightarrow> join_result option) list" where
  "one_by_one k rs = map (\<lambda>(i, r) h. if h = i then Some (Joined r) else None) (enumerate k rs)"

lemma one_by_one_simps [simp]:
  "one_by_one k [] = []"
  "one_by_one k (r # rs) = (\<lambda>h. if h = k then Some (Joined r) else None) # one_by_one (Suc k) rs"
  by (simp_all add: one_by_one_def)














section \<open>One execution per key\<close>

abbreviation run_hash :: "executor \<Rightarrow> 'x machine \<Rightarrow> task \<Rightarrow> str" where
  "run_hash ex mc t \<equiv> task_hash (rd_xxh3 (mc_reader mc)) (rd_fmt (mc_reader mc)) ex t"

lemma start_execution_finished:
  assumes "run_hash ex mc t \<noteq> []" "\<not> t_watch t" "w_run_once w (run_hash ex mc t) = Some (Finished r)"
  shows "start_execution ex mc sub t c path w = Returned (Inr (map_sum (Pair False) id r), w)"
  using assms by (simp add: start_execution_def Let_def bind_def gets_def ok_def)

lemma start_execution_running:
  assumes "run_hash ex mc t \<noteq> []" "\<not> t_watch t" "w_run_once w (run_hash ex mc t) = Some Running"
  shows "start_execution ex mc sub t c path w = Deadlock"
  using assms by (simp add: start_execution_def Let_def bind_def gets_def)

lemma start_execution_stores:
  assumes "run_hash ex mc t \<noteq> []" "\<not> t_watch t" "start_execution ex mc sub t c path w = Returned (Inr r, v)"
  shows "\<exists>r'. r = map_sum (Pair False) id r' \<and> w_run_once v (run_hash ex mc t) = Some (Finished r')"
proof (cases "w_run_once w (run_hash ex mc t)")
  case None
  with assms show ?thesis
    by (auto simp: start_execution_def Let_def bind_def gets_def ok_def modify_def attempt_def split: outcome.splits)
next
  case (Some cell)
  with assms show ?thesis
    by (cases cell) (auto simp: start_execution_running start_execution_finished)
qed


section \<open>Properties\<close>

text \<open>
  C3: the order of a task's commands. For a task of shell commands, the commands that run are
  those up to and including the first one that halts the loop (denied by its sandbox, or failed
  in a way that neither it nor the task ignores), without the deferred ones; when none halts it,
  all of them. Then, either way, the deferred ones met before it run, last first. The error is
  that of the halting command; without one there is none but the sandbox failure of a deferred
  command.
\<close>

theorem deferred_run_last_in_reverse:
  assumes "\<not> ex_dry ex" "plain_task mc t" "run_body ex mc sub ck t c path w = Returned (r, v)"
  shows "\<exists>err pre stop rest body halt after xc. r = Inr err \<and> t_cmds t = pre @ stop @ rest \<and> length stop \<le> 1
    \<and> w_trace v = w_trace w @ body @ halt @ after
    \<and> list_all2 (\<lambda>cm ev. ran_cmd cm ev \<and> \<not> halts t cm ev) (filter (\<lambda>cm. \<not> c_defer cm) pre) body
    \<and> list_all2 (\<lambda>cm ev. \<not> c_defer cm \<and> ran_cmd cm ev \<and> halts t cm ev \<and> err = event_failure t ev) stop halt
    \<and> map event_command after = rev (map (\<lambda>cm. c_cmd (render_deferred mc t xc cm)) (filter c_defer pre))
    \<and> (stop = [] \<longrightarrow> rest = [] \<and> (\<forall>e. err = Some e \<longrightarrow> is_sandbox_failure e))"
proof -
  from postD [OF run_body_order [OF assms(1,2)] assms(3)] obtain err evs where
    r: "r = Inr err" "w_trace v = w_trace w @ evs" "in_order mc t evs err" by blast
  then obtain loop after ds loop_err xc where evs: "evs = loop @ after" "loop_spec t (t_cmds t) loop loop_err ds"
    "map event_command after = rev (map (\<lambda>cm. c_cmd (render_deferred mc t xc cm)) ds)"
    "loop_err \<noteq> None \<longrightarrow> err = loop_err" "loop_err = None \<longrightarrow> (\<forall>e. err = Some e \<longrightarrow> is_sandbox_failure e)"
    unfolding in_order_def by blast
  from loop_spec_looped [OF evs(2)] obtain pre stop rest body halt where l: "t_cmds t = pre @ stop @ rest"
    "loop = body @ halt" "length stop \<le> 1" "stop = [] \<longrightarrow> rest = [] \<and> loop_err = None" "ds = filter c_defer pre"
    "list_all2 (\<lambda>cm ev. ran_cmd cm ev \<and> \<not> halts t cm ev) (filter (\<lambda>cm. \<not> c_defer cm) pre) body"
    "list_all2 (\<lambda>cm ev. \<not> c_defer cm \<and> ran_cmd cm ev \<and> halts t cm ev \<and> loop_err = event_failure t ev) stop halt"
    unfolding looped_def by blast
  have "list_all2 (\<lambda>cm ev. \<not> c_defer cm \<and> ran_cmd cm ev \<and> halts t cm ev \<and> err = event_failure t ev) stop halt"
    using l(7) by (rule list_all2_mono) (use evs(4) in \<open>auto simp: halts_def split: option.splits\<close>)
  with r evs l show ?thesis
    by (intro exI [of _ err] exI [of _ pre] exI [of _ stop] exI [of _ rest] exI [of _ body] exI [of _ halt]
        exI [of _ after] exI [of _ xc]) simp
qed

definition deferring_task :: task where
  "deferring_task = default_task\<lparr>t_task := ''d'',
     t_cmds := [default_cmd\<lparr>c_cmd := ''a'', c_defer := True\<rparr>, default_cmd\<lparr>c_cmd := ''b'', c_defer := True\<rparr>,
       default_cmd\<lparr>c_cmd := ''c''\<rparr>, default_cmd\<lparr>c_cmd := ''false''\<rparr>, default_cmd\<lparr>c_cmd := ''e''\<rparr>]\<rparr>"

lemma trim_Nil [simp]: "trim [] = []"
  by code_simp

lemma deferring_plain: "plain_task sample_machine deferring_task"
  by (simp add: plain_task_def plain_cmd_def deferring_task_def default_task_def default_cmd_def
      render_deferred_def sample_machine_def should_run_on_current_platform_def)

theorem deferred_run_last_in_reverse_witness:
  "\<exists>v pre cm rest body ev after. run_body sample_executor sample_machine (run_task 1 sample_executor sample_machine)
      sample_checker deferring_task (call_new ''d'') [] start_world = Returned (Inr (Some (Exec (NonZeroExit 1))), v)
    \<and> map event_command (w_trace v) = [''c'', ''false'', ''b'', ''a'']
    \<and> t_cmds deferring_task = pre @ cm # rest \<and> w_trace v = body @ ev # after \<and> ran_cmd cm ev \<and> halts deferring_task cm ev"
proof -
  have dry: "\<not> ex_dry sample_executor" by (simp add: sample_executor_def)
  have h: "sp_has_sources (ck_spec sample_checker)" by (simp add: sample_checker_def)
  have "\<exists>v. run_body sample_executor sample_machine (run_task 1 sample_executor sample_machine) sample_checker
      deferring_task (call_new ''d'') [] start_world = Returned (Inr (Some (Exec (NonZeroExit 1))), v)
      \<and> map event_command (w_trace v) = [''c'', ''false'', ''b'', ''a'']"
    by (simp add: run_body_def deferring_task_def default_task_def default_cmd_def run_command_def cmd_condition_def
        exec_shell_def command_env_def path_layers_def bind_def ok_def attempt_def emit_def modify_def outside_def
        invalidate_returns on_error_result [OF h] lift_def fail_def sandbox_verdict_def is_exec_exit_def Let_def
        run_deferred_def should_run_on_current_platform_def sample_executor_def render_deferred_def sample_machine_def
        start_world_def del: run_task.simps)
  then obtain v where v: "run_body sample_executor sample_machine (run_task 1 sample_executor sample_machine)
      sample_checker deferring_task (call_new ''d'') [] start_world = Returned (Inr (Some (Exec (NonZeroExit 1))), v)"
    "map event_command (w_trace v) = [''c'', ''false'', ''b'', ''a'']" by (elim exE conjE) (rule that; assumption)
  from deferred_run_last_in_reverse [OF dry deferring_plain v(1)] obtain pre stop rest body halt after where
    "t_cmds deferring_task = pre @ stop @ rest" "length stop \<le> 1" "w_trace v = body @ halt @ after"
    "list_all2 (\<lambda>cm ev. \<not> c_defer cm \<and> ran_cmd cm ev \<and> halts deferring_task cm ev
       \<and> Some (Exec (NonZeroExit 1)) = event_failure deferring_task ev) stop halt" "stop \<noteq> []"
    by (auto simp: start_world_def)
  moreover from this obtain cm ev where "stop = [cm]" "halt = [ev]"
    by (cases stop; cases halt) (auto simp: list_all2_Cons1)
  ultimately have "t_cmds deferring_task = pre @ cm # rest" "w_trace v = body @ ev # after"
    "ran_cmd cm ev" "halts deferring_task cm ev" by simp_all
  with v show ?thesis by (intro exI conjI)
qed



text \<open>
  C6: one execution per key. Once a call of a task that joins its calls has returned, every later
  call with the same key in the same run, from any caller, returns that result and does nothing.
\<close>

theorem run_once_executes_once:
  assumes "start_execution ex mc sub t c path w = Returned (Inr r, v)" "run_hash ex mc t \<noteq> []" "\<not> t_watch t"
    and "run_task n ex' mc' path' c' v = Returned (r', u)"
    and "run_hash ex mc t2 = run_hash ex mc t" "\<not> t_watch t2"
  shows "start_execution ex mc sub2 t2 c2 path2 u = Returned (Inr r, u)"
proof -
  from start_execution_stores [OF assms(2,3,1)] obtain q where q: "r = map_sum (Pair False) id q"
    "w_run_once v (run_hash ex mc t) = Some (Finished q)" by blast
  have "w_run_once u (run_hash ex mc t) = Some (Finished q)"
    using history.run_task_related [OF assms(4)] q(2) by (simp add: extends_def)
  with start_execution_finished [where ex = ex and mc = mc and t = t2 and w = u and r = q] assms(2,5,6) q(1)
  show ?thesis by simp
qed


lemma start_execution_returns:
  assumes "\<And>p d. returning.safe w (sub p d)" "w_run_once w (run_hash ex mc t) = None"
  shows "\<exists>r v. start_execution ex mc sub t c path w = Returned (Inr r, v)"
proof -
  let ?w = "if run_hash ex mc t = [] \<or> t_watch t then w
    else w\<lparr>w_run_once := (w_run_once w)(run_hash ex mc t \<mapsto> Running)\<rparr>"
  have "counted w ?w" by (simp add: counted_def)
  then have "returning.works ?w (execute ex mc sub t c path) (\<lambda>_. True)"
    by (rule returning.safe_at [OF returning.safe_execute, rotated]) (rule assms(1))
  then obtain r v where "execute ex mc sub t c path ?w = Returned (r, v)"
    by (auto simp: returning.works_def split: outcome.splits)
  with assms(2) show ?thesis
    by (auto simp: start_execution_def Let_def bind_def gets_def ok_def modify_def attempt_def split: if_splits)
qed

definition once_task :: task where
  "once_task = default_task\<lparr>t_task := ''build'', t_run := ''once''\<rparr>"

lemma once_task_simps [simp]: "task_hash x f ex once_task = '':build''" "\<not> t_watch once_task"
  by (simp_all add: task_hash_def once_task_def default_task_def hash_name_def task_taskfile_def local_name_def
      strip_prefix_def starts_with_def)

lemma start_world_cells: "w_run_once start_world h = None"
  by (simp add: start_world_def)

lemma unknown_call:
  "\<exists>e. run_task 1 sample_executor sample_machine [] (call_new ''zz'') w = Returned (Inl e, w)"
proof -
  have "aliases_of sample_tasks ''zz'' = []" "im_get sample_tasks ''zz'' = None"
    by (simp_all add: aliases_of_def sample_tasks_def default_task_def im_get_def)
  moreover have "find (\<lambda>t. fst (wildcard_match t ''zz'')) (map snd sample_tasks) = None"
    by code_simp
  ultimately have "\<exists>e. get_task_with_match sample_executor d = Inl e" if "call_task d = ''zz''" for d
    using that get_task_with_match_resolved [of sample_executor _ d] sample_tasks_ok
    by (simp add: resolved_by_def)
  then have "\<exists>e. fast_compiled_task sample_executor sample_machine d w = Returned (Inl e, w)" if "call_task d = ''zz''" for d
    using that by (fastforce simp: fast_compiled_task_def compiled_task_with_def bind_def lift_def)
  moreover have "call_task (inject_prompted_vars pv (call_new ''zz'')) = ''zz''" for pv
    by (simp add: inject_prompted_vars_def call_new_def split: option.split)
  ultimately obtain e where "fast_compiled_task sample_executor sample_machine
      (inject_prompted_vars (w_prompted_vars w) (call_new ''zz'')) w = Returned (Inl e, w)" by blast
  then show ?thesis by (simp add: run_task_on_def prepare_call_def bind_def gets_def)
qed

theorem run_once_executes_once_witness:
  "\<exists>r u. start_execution sample_executor sample_machine (\<lambda>_ _. ok ()) once_task (call_new ''b'') [] u
     = Returned (Inr r, u) \<and> w_run_once start_world '':build'' = None"
proof -
  have "returning.safe start_world (ok ())" by (simp add: returning.holds_ok)
  then obtain r v where "start_execution sample_executor sample_machine (\<lambda>_ _. ok ()) once_task (call_new ''build'') []
      start_world = Returned (Inr r, v)"
    using start_execution_returns [where w = start_world and sub = "\<lambda>_ _. ok ()" and ex = sample_executor
        and mc = sample_machine and t = once_task] start_world_cells by blast
  moreover obtain e where "run_task 1 sample_executor sample_machine [] (call_new ''zz'') v = Returned (Inl e, v)"
    using unknown_call by blast
  ultimately show ?thesis
    using run_once_executes_once [where ex = sample_executor and mc = sample_machine and sub = "\<lambda>_ _. ok ()"
        and t = once_task and c = "call_new ''build''" and path = "[]" and w = start_world and r = r and v = v
        and n = 1 and ex' = sample_executor and mc' = sample_machine and path' = "[]"
        and c' = "call_new ''zz''" and r' = "Inl e" and u = v and ?t2.0 = once_task] start_world_cells
      once_task_simps(2)
    by (simp del: run_task.simps) blast
qed













end
