(* ===== verification/Spec2Isabelle.thy ===== *)
theory Spec2Isabelle
  imports Paths Listing Fuzzy Yaml Ast AstOps Decode Merge Graph Hash_Encoding Checksum Exec_Order
begin

text \<open>
  task-rs is a task runner: it reads Taskfiles, merges the files they include, and runs the tasks
  that are not up to date, taking their outputs from a cache where it can. This development models
  the parts that decide what is run and what is recorded about it, and proves what they promise.
  Files are named below \<open>src/crates/taskcore/src\<close> unless another crate is given.

  \<^bold>\<open>The program and its parts.\<close> A YAML value is decoded into a syntax tree; the files a Taskfile includes
  form a graph, which is sorted and merged into one tree. A call is resolved to a task, compiled and
  run: its setup, its dependencies, its commands, then the deferred ones. Before the commands a
  checksum over the sources and the generated files decides whether the task is up to date; a lock
  serialises runs; an entry of the remote cache is restored, verified, and kept or taken back.
  After the commands the checksum is published, or removed when the run cannot be trusted.

  \<^bold>\<open>Foundations.\<close> \<open>TaskPrelude\<close> has the pieces of Rust and its library the sources use: strings as lists
  of bytes, results with \<open>?\<close>, comparison, index maps, byte encodings, and the locales \<open>view_code\<close>,
  \<open>prefix_code\<close> (encodings that can be read back) and \<open>ordered_map\<close>, interpreted on the encoders and maps
  of the model. \<open>Paths\<close> is \<open>filepathext.rs\<close>: the normal form of \<open>clean\<close>, \<open>rel\<close> against \<open>join\<close>, and the
  directory stack. \<open>Listing\<close> is \<open>slicesext.rs\<close> and \<open>sort.rs\<close>; \<open>Fuzzy\<close> is \<open>task/src/fuzzy.rs\<close>, whose two
  rolling rows are shown to compute the edit distance.

  \<^bold>\<open>Taskfiles.\<close> \<open>Yaml\<close> has the values, numbers and typed readers of \<open>yaml/\<close>, \<open>Ast\<close> one record per struct of
  \<open>ast/\<close>, \<open>AstOps\<close> the operations within a struct (variables, wildcards, platforms, required variables),
  \<open>Decode\<close> the reader of every node and that what it accepts is well formed. \<open>Merge\<close> is \<open>ast/tasks.rs\<close> and
  \<open>ast/taskfile.rs\<close>: what a merge stores under which name, and that references still resolve. \<open>Graph\<close> is
  \<open>ast/graph.rs\<close>: the cycle check, the topological sort and the merge over a graph the reader builds.

  \<^bold>\<open>What is up to date.\<close> \<open>Hash_Encoding\<close> is \<open>hash.rs\<close>: equal encodings mean equal tasks, up to the fields
  the identity leaves out, and equal call keys equal calls. \<open>Checksum\<close> is \<open>fingerprint/checksum.rs\<close> and
  \<open>fingerprint/sources_checksum.rs\<close>: the checksum record, the verdict of the check, publication and
  removal. The state file is part of the \<open>disk\<close>; a removal may be refused, and a write may fail before
  or after the file was opened.

  \<^bold>\<open>The executor\<close> (\<open>executor/\<close>). \<open>Exec_Error\<close> has its errors and exit codes, \<open>Exec_Resolve\<close> the resolution
  of a call and the split into regular and watched calls, \<open>Exec_Queue\<close> the call path and the joining of
  queued calls in any order of completion. \<open>Exec_World\<close> has the state of a run as the record \<open>world\<close> and
  the \<open>machine\<close>, the record of everything the engine does not compute itself: compiling a task
  (templates and shell variables), the shell, prompts, locks and the cache. \<open>Exec_Run\<close> is the run of a
  call, whole, in the order of \<open>run.rs\<close>. The locales \<open>run_relation\<close> and \<open>run_invariant\<close> of \<open>Exec_Invariants\<close>
  show once what every step of a run keeps; \<open>Exec_Termination\<close>, \<open>Exec_Publish\<close> and \<open>Exec_Order\<close> rest on
  their interpretations and on the rules for \<open>post\<close>: a run returns; what it leaves in the state
  directory was valid when it was recorded, or is gone; the commands, the deferred ones and the
  joined calls run in the documented order; a task that joins its calls is executed once per key.

  \<^bold>\<open>State and failures.\<close> Fallible code returns a sum type with the error on the left. A step of the
  executor takes the world and returns a result with the world it leaves, or does not return. The
  errors the source drops (\<open>let _ = checker.on_error()\<close>) are dropped in the model, and the theorems name
  what is lost by it. The trace of a world lists the commands that ran with what they returned; no
  decision of the engine reads it.

  \<^bold>\<open>Concurrency.\<close> Dependencies and parallel calls are queued on one thread of the engine. The run is
  modelled on the schedule that runs each queued call to its end before the next starts, with the
  join asked after each; \<open>Exec_Queue\<close> models the join itself for every schedule of completions, and
  the sequential run is shown to refine it. In that schedule a call that meets the cell of a run
  of its own caller never returns; that a concurrent caller waits for the result is not modelled.
  Cancellation is not modelled.

  \<^bold>\<open>Bounds.\<close> \<open>run_task\<close> has fuel for the depth of the call path; with more than a thousand calls per task
  of the Taskfile it is never used up, as the call limit of the code stops the run first. The walk
  over missing variables has fuel for the calls it takes from its queue, which the code does not
  bound. Kahn's loop is a partial function, shown to return. Every other loop is a total function. Call counters saturate at 32 bits as in the source; hashes
  and encodings are machine words.

  \<^bold>\<open>Parameters.\<close> The expansion of glob patterns, the hash functions, the printing of floating-point
  numbers and the operations of the machine are parameters; what a theorem needs of one is a
  hypothesis, with a witness where it holds.

  \<^bold>\<open>Not modelled.\<close> The YAML text reader and printer (\<open>yaml/de.rs\<close>, \<open>ser.rs\<close>, \<open>loader.rs\<close>) are a layer over a
  parser crate. Reading Taskfiles from disk (\<open>reader/read.rs\<close>) is I/O around the graph operations that
  are modelled. Templates and variables (\<open>templater.rs\<close>, \<open>compiler.rs\<close>, \<open>variables.rs\<close>) are rendered by
  a template engine that is not part of the sources. The walk of glob patterns
  (\<open>fingerprint/glob.rs\<close>), the reachability of references (\<open>reach.rs\<close>), the cache and its locks (\<open>cache/\<close>
  and the crate \<open>ocicas\<close>), the system-call filter of the sandbox, the watcher, output styles and the
  command line (\<open>crates/task\<close>, but for the suggestions) are left out, as is Windows.
\<close>

end
